theory Spec2Isabelle
  imports Main
begin

section \<open>Strings\<close>

text \<open>
  A JavaScript string is modelled as a \<^typ>\<open>string\<close>, one \<^typ>\<open>char\<close> per code unit.
  Only the code units below 256 are representable, so of the four line terminators that the
  regular-expression dot refuses (LF, CR, U+2028, U+2029) the model has the first two.
\<close>

definition startsWith :: "string \<Rightarrow> string \<Rightarrow> bool" where
  "startsWith s p = (take (length p) s = p)"

definition endsWith :: "string \<Rightarrow> string \<Rightarrow> bool" where
  "endsWith s p = (length p \<le> length s \<and> drop (length s - length p) s = p)"

text \<open>
  \<^verbatim>\<open>s.slice(b, e)\<close>: a negative index counts from the end, both indices are clamped to
  the string, and an empty range gives the empty string.
\<close>

definition slice :: "string \<Rightarrow> int \<Rightarrow> int \<Rightarrow> string" where
  "slice s b e =
     (let n = int (length s);
          from = (if b < 0 then max (n + b) 0 else min b n);
          to = (if e < 0 then max (n + e) 0 else min e n)
      in take (nat (to - from)) (drop (nat from) s))"

text \<open>
  \<^verbatim>\<open>s.replace(/pat/g, rep)\<close> for a pattern that is a literal, non-empty string: matches
  are found left to right and do not overlap.
\<close>

fun replace_all :: "string \<Rightarrow> string \<Rightarrow> string \<Rightarrow> string" where
  "replace_all pat rep [] = []"
| "replace_all pat rep (c # cs) =
     (if pat \<noteq> [] \<and> startsWith (c # cs) pat
      then rep @ replace_all pat rep (drop (length pat - 1) cs)
      else c # replace_all pat rep cs)"

section \<open>Backtracking matchers\<close>

text \<open>
  The regular expressions of the renderer are built from literals and lazy stars. A matcher
  takes the rest of the input and returns the result of the first successful path of the
  backtracking search, or \<open>None\<close>. Each combinator takes the matcher of what follows it in
  the pattern, so that a failure further right makes a lazy star try one more character,
  as the engine does.
\<close>

type_synonym 'a matcher = "string \<Rightarrow> 'a option"

definition lit :: "string \<Rightarrow> 'a matcher \<Rightarrow> 'a matcher" where
  "lit p k s = (if startsWith s p then k (drop (length p) s) else None)"

fun lazy_star :: "(char \<Rightarrow> bool) \<Rightarrow> 'a matcher \<Rightarrow> (string \<times> 'a) matcher" where
  "lazy_star ok k [] = map_option (Pair []) (k [])"
| "lazy_star ok k (c # cs) =
     (case k (c # cs) of
        Some r \<Rightarrow> Some ([], r)
      | None \<Rightarrow>
          if ok c then map_option (\<lambda>(m, r). (c # m, r)) (lazy_star ok k cs) else None)"

text \<open>The dot matches every character but a line terminator; \<^verbatim>\<open>[\s\S]\<close> matches all.\<close>

definition dot :: "char \<Rightarrow> bool" where
  "dot c = (c \<noteq> CHR 0x0A \<and> c \<noteq> CHR 0x0D)"

definition any_char :: "char \<Rightarrow> bool" where
  "any_char c = True"

section \<open>The content renderer\<close>

subsection \<open>Pass 1: escaping\<close>

definition escapeHtml :: "string \<Rightarrow> string" where
  \<open>escapeHtml unsafe =
     replace_all [CHR 0x27] ''&#039;''
       (replace_all ''"'' ''&quot;''
         (replace_all ''>'' ''&gt;''
           (replace_all ''<'' ''&lt;''
             (replace_all ''&'' ''&amp;'' unsafe))))\<close>

subsection \<open>Pass 2: image references\<close>

text \<open>
  \<^verbatim>\<open>/!\[(.*?)\]\(attachment:(.*?)\)/\<close> tried at the start of the input: the alt text, the
  id and the input after the match.
\<close>

definition image_ref_match :: "(string \<times> string \<times> string) matcher" where
  "image_ref_match =
     lit ''!['' (lazy_star dot (lit ''](attachment:'' (lazy_star dot (lit '')'' Some))))"

text \<open>
  The callback of the replacement. \<^verbatim>\<open>attachments[id]\<close> reads an own property of the
  store, which is a map from ids to payloads, or else what the object inherits under that
  name (for a plain object, the members of \<^verbatim>\<open>Object.prototype\<close>, such as
  \<^verbatim>\<open>constructor\<close>). The inherited members are a parameter: for a name, whether the value
  is truthy and the text it becomes in a template literal. An own payload is truthy unless
  it is the empty string; a name found nowhere gives \<^verbatim>\<open>undefined\<close>.
\<close>

type_synonym inherited = "string \<rightharpoonup> bool \<times> string"

definition image_replacement ::
  "inherited \<Rightarrow> (string \<rightharpoonup> string) \<Rightarrow> string \<Rightarrow> string \<Rightarrow> string" where
  "image_replacement Object_prototype attachments alt ident =
     (let (truthy, src) =
            (case attachments ident of
               Some payload \<Rightarrow> (payload \<noteq> [], payload)
             | None \<Rightarrow>
                 (case Object_prototype ident of
                    Some member \<Rightarrow> member
                  | None \<Rightarrow> (False, ''undefined'')))
      in if truthy then ''$$IMG_START$$'' @ src @ ''$$IMG_SEP$$'' @ alt @ ''$$IMG_END$$''
         else ''[Broken Image: '' @ alt @ '']'')"

lemma lit_rest:
  assumes "lit p k s = Some r" and "\<And>t x. k t = Some x \<Longrightarrow> length (f x) \<le> length t"
  shows "length (f r) + length p \<le> length s"
proof -
  from assms(1) have p: "startsWith s p" and k: "k (drop (length p) s) = Some r"
    by (auto simp: lit_def split: if_splits)
  from p have "length p \<le> length s"
    by (metis startsWith_def length_take min.cobounded1 min.commute)
  moreover from assms(2)[OF k] have "length (f r) \<le> length s - length p"
    by simp
  ultimately show ?thesis by simp
qed

lemma lazy_star_rest:
  assumes "lazy_star ok k s = Some (m, r)"
    and "\<And>t x. k t = Some x \<Longrightarrow> length (f x) \<le> length t"
  shows "length (f r) \<le> length s"
  using assms(1)
proof (induction s arbitrary: m)
  case Nil
  then show ?case using assms(2)[of "[]" r] by auto
next
  case (Cons c cs)
  show ?case
  proof (cases "k (c # cs)")
    case (Some x)
    with Cons.prems have "x = r" by simp
    with Some assms(2) show ?thesis by blast
  next
    case None
    with Cons.prems obtain m' where "lazy_star ok k cs = Some (m', r)"
      by (auto split: if_splits)
    from Cons.IH[OF this] show ?thesis by simp
  qed
qed

lemma image_ref_match_rest:
  assumes "image_ref_match s = Some (alt, ident, rest)"
  shows "length rest < length s"
proof -
  have a: "\<And>t x. lit '')'' Some t = Some x \<Longrightarrow> length x \<le> length t"
    using lit_rest[where f = "\<lambda>x. x" and k = Some] by fastforce
  have b: "\<And>t x. lazy_star dot (lit '')'' Some) t = Some x \<Longrightarrow> length (snd x) \<le> length t"
    using lazy_star_rest[where f = "\<lambda>x. x", OF _ a] by (metis prod.collapse)
  have c: "\<And>t x. lit ''](attachment:'' (lazy_star dot (lit '')'' Some)) t = Some x
             \<Longrightarrow> length (snd x) \<le> length t"
    using lit_rest[where f = snd, OF _ b] by fastforce
  have d: "\<And>t x. lazy_star dot (lit ''](attachment:'' (lazy_star dot (lit '')'' Some))) t = Some x
             \<Longrightarrow> length (snd (snd x)) \<le> length t"
    using lazy_star_rest[where f = snd, OF _ c] by (metis prod.collapse)
  from lit_rest[where f = "\<lambda>x. snd (snd x)", OF assms[unfolded image_ref_match_def] d]
  show ?thesis by simp
qed

function replace_image_refs :: "inherited \<Rightarrow> (string \<rightharpoonup> string) \<Rightarrow> string \<Rightarrow> string" where
  "replace_image_refs Object_prototype attachments [] = []"
| "replace_image_refs Object_prototype attachments (c # cs) =
     (case image_ref_match (c # cs) of
        Some (alt, ident, rest) \<Rightarrow>
          image_replacement Object_prototype attachments alt ident
          @ replace_image_refs Object_prototype attachments rest
      | None \<Rightarrow> c # replace_image_refs Object_prototype attachments cs)"
  by pat_completeness auto
termination
  by (relation "measure (\<lambda>(p, a, s). length s)") (auto dest: image_ref_match_rest)

subsection \<open>Pass 3: math segments\<close>

text \<open>
  The injected math capability: \<open>None\<close> when \<^verbatim>\<open>window.katex\<close> is absent; otherwise
  \<^verbatim>\<open>renderToString\<close>, whose result \<open>None\<close> stands for a thrown exception.
\<close>

type_synonym katex = "string \<Rightarrow> bool \<Rightarrow> string option"

definition renderMath :: "katex option \<Rightarrow> string \<Rightarrow> bool \<Rightarrow> string" where
  "renderMath katex math displayMode =
     (case katex of
        Some renderToString \<Rightarrow>
          (case renderToString math displayMode of Some html \<Rightarrow> html | None \<Rightarrow> math)
      | None \<Rightarrow> math)"

text \<open>
  \<^verbatim>\<open>/(\$\$[\s\S]*?\$\$|\$[\s\S]*?\$)/\<close> tried at the start of the input: the matched
  text (the capture group) and the input after it. The block alternative is tried first.
\<close>

definition math_match :: "(string \<times> string) matcher" where
  "math_match s =
     (case lit ''$$'' (lazy_star any_char (lit ''$$'' Some)) s of
        Some (body, rest) \<Rightarrow> Some (''$$'' @ body @ ''$$'', rest)
      | None \<Rightarrow>
          (case lit ''$'' (lazy_star any_char (lit ''$'' Some)) s of
             Some (body, rest) \<Rightarrow> Some (''$'' @ body @ ''$'', rest)
           | None \<Rightarrow> None))"

lemma delimited_rest:
  assumes "lit d (lazy_star ok (lit d Some)) s = Some (body, rest)"
  shows "length rest + length d \<le> length s"
proof -
  have a: "\<And>t x. lit d Some t = Some x \<Longrightarrow> length x \<le> length t"
    using lit_rest[where f = "\<lambda>x. x" and k = Some] by fastforce
  have b: "\<And>t x. lazy_star ok (lit d Some) t = Some x \<Longrightarrow> length (snd x) \<le> length t"
    using lazy_star_rest[where f = "\<lambda>x. x", OF _ a] by (metis prod.collapse)
  from lit_rest[where f = snd, OF assms b] show ?thesis by simp
qed

lemma math_match_rest:
  assumes "math_match s = Some (m, rest)"
  shows "length rest < length s"
proof (cases "lit ''$$'' (lazy_star any_char (lit ''$$'' Some)) s")
  case (Some x)
  obtain body r where x: "x = (body, r)" by (cases x)
  with Some assms have "r = rest" by (simp add: math_match_def)
  with delimited_rest[OF Some[unfolded x]] show ?thesis by simp
next
  case None
  with assms obtain body where
    "lit ''$'' (lazy_star any_char (lit ''$'' Some)) s = Some (body, rest)"
    by (auto simp: math_match_def split: option.splits)
  from delimited_rest[OF this] show ?thesis by simp
qed

text \<open>
  \<^verbatim>\<open>s.split(re)\<close> with one capture group: the text before a match, the match, and so on,
  ending with the text after the last match. \<open>acc\<close> is the text since the last match.
\<close>

function split_scan :: "string \<Rightarrow> string \<Rightarrow> string list" where
  "split_scan acc [] = [acc]"
| "split_scan acc (c # cs) =
     (case math_match (c # cs) of
        Some (m, rest) \<Rightarrow> acc # m # split_scan [] rest
      | None \<Rightarrow> split_scan (acc @ [c]) cs)"
  by pat_completeness auto
termination
  by (relation "measure (\<lambda>(a, s). length s)") (auto dest: math_match_rest)

definition split_math :: "string \<Rightarrow> string list" where
  "split_math s = split_scan [] s"

definition render_part :: "katex option \<Rightarrow> string \<Rightarrow> string" where
  "render_part katex part =
     (if startsWith part ''$$'' \<and> endsWith part ''$$''
      then renderMath katex
             (replace_all ''&gt;'' ''>'' (replace_all ''&lt;'' ''<'' (slice part 2 (- 2)))) True
      else if startsWith part ''$'' \<and> endsWith part ''$''
      then renderMath katex
             (replace_all ''&gt;'' ''>'' (replace_all ''&lt;'' ''<'' (slice part 1 (- 1)))) False
      else replace_all ''\<newline>'' ''<br/>'' part)"

subsection \<open>Pass 4: image elements\<close>

text \<open>
  \<^verbatim>\<open>/\$\$IMG_START\$\$(.*?)\$\$IMG_SEP\$\$(.*?)\$\$IMG_END\$\$/\<close> tried at the start of the
  input: the payload, the alt text and the input after the match.
\<close>

definition placeholder_match :: "(string \<times> string \<times> string) matcher" where
  "placeholder_match =
     lit ''$$IMG_START$$''
       (lazy_star dot (lit ''$$IMG_SEP$$'' (lazy_star dot (lit ''$$IMG_END$$'' Some))))"

definition image_element :: "string \<Rightarrow> string \<Rightarrow> string" where
  \<open>image_element src alt =
     ''<div class="my-6 flex flex-col items-center">\<newline>''
     @ ''                <img src="'' @ src @ ''" alt="'' @ alt
     @ ''" class="max-w-full h-auto max-h-[500px] rounded-lg shadow-md border border-gray-200" />\<newline>''
     @ ''                <span class="text-sm text-gray-500 mt-2 italic">'' @ alt @ ''</span>\<newline>''
     @ ''              </div>''\<close>

lemma placeholder_match_rest:
  assumes "placeholder_match s = Some (src, alt, rest)"
  shows "length rest < length s"
proof -
  have a: "\<And>t x. lit ''$$IMG_END$$'' Some t = Some x \<Longrightarrow> length x \<le> length t"
    using lit_rest[where f = "\<lambda>x. x" and k = Some] by fastforce
  have b: "\<And>t x. lazy_star dot (lit ''$$IMG_END$$'' Some) t = Some x
             \<Longrightarrow> length (snd x) \<le> length t"
    using lazy_star_rest[where f = "\<lambda>x. x", OF _ a] by (metis prod.collapse)
  have c: "\<And>t x. lit ''$$IMG_SEP$$'' (lazy_star dot (lit ''$$IMG_END$$'' Some)) t = Some x
             \<Longrightarrow> length (snd x) \<le> length t"
    using lit_rest[where f = snd, OF _ b] by fastforce
  have d: "\<And>t x. lazy_star dot (lit ''$$IMG_SEP$$'' (lazy_star dot (lit ''$$IMG_END$$'' Some))) t
               = Some x
             \<Longrightarrow> length (snd (snd x)) \<le> length t"
    using lazy_star_rest[where f = snd, OF _ c] by (metis prod.collapse)
  from lit_rest[where f = "\<lambda>x. snd (snd x)", OF assms[unfolded placeholder_match_def] d]
  show ?thesis by simp
qed

function replace_placeholders :: "string \<Rightarrow> string" where
  "replace_placeholders [] = []"
| "replace_placeholders (c # cs) =
     (case placeholder_match (c # cs) of
        Some (src, alt, rest) \<Rightarrow> image_element src alt @ replace_placeholders rest
      | None \<Rightarrow> c # replace_placeholders cs)"
  by pat_completeness auto
termination
  by (relation "measure length") (auto dest: placeholder_match_rest)

subsection \<open>The pipeline\<close>

text \<open>
  The markup that the effect of \<^verbatim>\<open>ContentRenderer\<close> assigns to the container, as a
  function of the text and the attachment store, and of the two things it takes from its
  environment: the math capability and the inherited members of the store.
\<close>

definition ContentRenderer ::
  "katex option \<Rightarrow> inherited \<Rightarrow> string \<Rightarrow> (string \<rightharpoonup> string) \<Rightarrow> string" where
  "ContentRenderer katex Object_prototype text attachments =
     (let safeHtml = escapeHtml text;
          safeHtml = replace_image_refs Object_prototype attachments safeHtml;
          parts = split_math safeHtml;
          htmlWithMath = concat (map (render_part katex) parts);
          finalHtml = replace_placeholders htmlWithMath
      in finalHtml)"

section \<open>The document model\<close>

datatype FieldType = text_field | textarea

record SectionDefinition =
  sec_id :: string
  label :: string
  sec_type :: FieldType
  required :: "bool option"
  placeholder :: "string option"
  aiPrompt :: "string option"

record ReportTemplate =
  tmpl_id :: string
  title :: string
  description :: string
  sections :: "SectionDefinition list"

text \<open>
  The optional fields of a stored version (\<^verbatim>\<open>name?\<close>, \<^verbatim>\<open>attachments?\<close>) are options.
  Numbers that hold \<^verbatim>\<open>Date.now()\<close> are natural numbers (milliseconds). Field names
  that several interfaces share, or that are taken (\<^verbatim>\<open>id\<close>, \<^verbatim>\<open>type\<close>,
  \<^verbatim>\<open>values\<close>), carry a prefix or suffix.
\<close>

record ReportVersion =
  ver_id :: string
  timestamp :: nat
  name :: "string option"
  ver_values :: "string \<rightharpoonup> string"
  ver_attachments :: "(string \<rightharpoonup> string) option"

record ReportData =
  templateId :: string
  lastModified :: nat
  values_of :: "string \<rightharpoonup> string"
  attachments :: "string \<rightharpoonup> string"
  history :: "ReportVersion list"

text \<open>
  What \<^verbatim>\<open>JSON.parse\<close> of the stored draft gives: a record whose \<^verbatim>\<open>history\<close> and
  \<^verbatim>\<open>attachments\<close> may be absent. The item under the storage key is missing
  (\<^verbatim>\<open>getItem\<close> returns null or the empty string), or a string that \<^verbatim>\<open>JSON.parse\<close>
  rejects, or the text of such a record.
\<close>

record PersistedRecord =
  p_templateId :: string
  p_lastModified :: nat
  p_values :: "string \<rightharpoonup> string"
  p_attachments :: "(string \<rightharpoonup> string) option"
  p_history :: "ReportVersion list option"

datatype storage_item = Missing | Malformed | Stored PersistedRecord

datatype error = SyntaxError | TypeError

datatype save_status = Saved | Saving | Unsaved

text \<open>
  The state of \<^verbatim>\<open>App\<close> that the handlers read and write, with the storage item beside
  it. A handler runs on the committed state: the \<^verbatim>\<open>reportData\<close> of its closure is the
  \<^verbatim>\<open>prev\<close> of its updaters, and queued updaters run in order.
\<close>

record app_state =
  activeTemplate :: "ReportTemplate option"
  reportData :: "ReportData option"
  activeSectionId :: string
  saveStatus :: save_status
  showHistory :: bool
  localStorage :: storage_item

text \<open>\<^verbatim>\<open>JSON.stringify\<close> of the document: every field is present in the stored text.\<close>

definition stringify :: "ReportData \<Rightarrow> storage_item" where
  "stringify d =
     Stored \<lparr>p_templateId = templateId d, p_lastModified = lastModified d,
             p_values = values_of d, p_attachments = Some (attachments d),
             p_history = Some (history d)\<rparr>"

text \<open>\<^verbatim>\<open>n.toString()\<close> of a non-negative integer: its decimal digits.\<close>

fun toString :: "nat \<Rightarrow> string" where
  "toString n =
     (if n < 10 then [char_of (48 + n)] else toString (n div 10) @ [char_of (48 + n mod 10)])"

subsection \<open>Loading\<close>

text \<open>
  The auto-load effect parses the stored draft inside \<^verbatim>\<open>try\<close> and fills in the two
  fields; it keeps the result in a local variable only. \<open>autoLoad\<close> is that local value.
\<close>

definition autoLoad :: "storage_item \<Rightarrow> PersistedRecord option" where
  "autoLoad item =
     (case item of
        Missing \<Rightarrow> None
      | Malformed \<Rightarrow> None
      | Stored parsed \<Rightarrow>
          (let parsed = (if p_history parsed = None then parsed\<lparr>p_history := Some []\<rparr> else parsed);
               parsed = (if p_attachments parsed = None
                         then parsed\<lparr>p_attachments := Some Map.empty\<rparr> else parsed)
           in Some parsed))"

text \<open>
  \<^verbatim>\<open>handleTemplateSelect\<close>: \<^verbatim>\<open>JSON.parse\<close> is not guarded here, so a rejected draft
  ends the handler with the exception before any state is set. \<open>TEMPLATES\<close> is the
  catalogue; a key outside it, or a template without sections, ends in a type error at
  \<^verbatim>\<open>tmpl.sections[0].id\<close> (the error value does not keep the updates queued before
  it; the keys the buttons pass are the catalogue's own).
\<close>

definition handleTemplateSelect ::
  "(string \<rightharpoonup> ReportTemplate) \<Rightarrow> string \<Rightarrow> nat \<Rightarrow> app_state \<Rightarrow> error + app_state" where
  "handleTemplateSelect TEMPLATES key now st =
     (case localStorage st of
        Malformed \<Rightarrow> Inl SyntaxError
      | item \<Rightarrow>
          (let (initialValues, initialHistory, initialAttachments) =
                 (case item of
                    Stored parsed \<Rightarrow>
                      if p_templateId parsed = key
                      then (p_values parsed,
                            (case p_history parsed of Some h \<Rightarrow> h | None \<Rightarrow> []),
                            (case p_attachments parsed of Some a \<Rightarrow> a | None \<Rightarrow> Map.empty))
                      else (Map.empty, [], Map.empty)
                  | _ \<Rightarrow> (Map.empty, [], Map.empty));
               st = st\<lparr>reportData := Some \<lparr>templateId = key, lastModified = now,
                                            values_of = initialValues,
                                            attachments = initialAttachments,
                                            history = initialHistory\<rparr>\<rparr>
           in case TEMPLATES key of
                None \<Rightarrow> Inl TypeError
              | Some tmpl \<Rightarrow>
                  (case sections tmpl of
                     [] \<Rightarrow> Inl TypeError
                   | sec # _ \<Rightarrow> Inr (st\<lparr>activeTemplate := Some tmpl, activeSectionId := sec_id sec\<rparr>))))"

subsection \<open>Editing\<close>

definition handleInputChange :: "string \<Rightarrow> string \<Rightarrow> nat \<Rightarrow> app_state \<Rightarrow> app_state" where
  "handleInputChange ident v now st =
     st\<lparr>saveStatus := Unsaved,
        reportData :=
          map_option (\<lambda>prev. prev\<lparr>lastModified := now, values_of := (values_of prev)(ident \<mapsto> v)\<rparr>)
            (reportData st)\<rparr>"

text \<open>
  \<^verbatim>\<open>insertAttachment\<close>. \<open>ident\<close> is the identifier it generates from the clock and the
  random source; \<open>textarea\<close> is what the query for the active section's text area finds:
  its selection start, selection end and value. \<^verbatim>\<open>substring(0, start)\<close> and
  \<^verbatim>\<open>substring(end)\<close> are \<open>take\<close> and \<open>drop\<close>.
\<close>

definition insertAttachment ::
  "string \<Rightarrow> string \<Rightarrow> string \<Rightarrow> (nat \<times> nat \<times> string) option \<Rightarrow> nat \<Rightarrow> app_state \<Rightarrow> app_state" where
  "insertAttachment ident dataUrl altText textarea_query now st =
     (case reportData st of
        None \<Rightarrow> st
      | Some rd \<Rightarrow>
          if activeSectionId st = [] then st
          else
            (let st' = st\<lparr>reportData :=
                           map_option (\<lambda>prev. prev\<lparr>attachments := (attachments prev)(ident \<mapsto> dataUrl)\<rparr>)
                             (reportData st)\<rparr>;
                 tag = ''\<newline>!['' @ altText @ ''](attachment:'' @ ident @ '')\<newline>''
             in case textarea_query of
                  Some (start, end, text) \<Rightarrow>
                    handleInputChange (activeSectionId st)
                      (take start text @ tag @ drop end text) now st'
                | None \<Rightarrow>
                    handleInputChange (activeSectionId st)
                      ((case values_of rd (activeSectionId st) of Some v \<Rightarrow> v | None \<Rightarrow> [])
                       @ tag) now st'))"

subsection \<open>Versions\<close>

text \<open>
  \<^verbatim>\<open>handleSaveVersion\<close> reads the clock twice, for the id and for the timestamp. The
  zero-delay timer that writes the storage item is run at once.
\<close>

definition newVersion :: "nat \<Rightarrow> nat \<Rightarrow> ReportData \<Rightarrow> ReportVersion" where
  "newVersion now_id now_ts rd =
     \<lparr>ver_id = toString now_id, timestamp = now_ts,
      name = Some (''Version '' @ toString (length (history rd) + 1)),
      ver_values = values_of rd, ver_attachments = Some (attachments rd)\<rparr>"

definition handleSaveVersion :: "nat \<Rightarrow> nat \<Rightarrow> app_state \<Rightarrow> app_state" where
  "handleSaveVersion now_id now_ts st =
     (case reportData st of
        None \<Rightarrow> st
      | Some rd \<Rightarrow>
          st\<lparr>reportData := Some (rd\<lparr>history := take 30 (newVersion now_id now_ts rd # history rd)\<rparr>),
             localStorage :=
               stringify (rd\<lparr>history := take 30 (newVersion now_id now_ts rd # history rd)\<rparr>)\<rparr>)"

text \<open>\<open>confirmed\<close> is the answer to the confirmation dialogue.\<close>

definition handleRestoreVersion :: "bool \<Rightarrow> nat \<Rightarrow> ReportVersion \<Rightarrow> app_state \<Rightarrow> app_state" where
  "handleRestoreVersion confirmed now version st =
     (if \<not> confirmed then st
      else st\<lparr>reportData :=
                 map_option
                   (\<lambda>prev. prev\<lparr>values_of := ver_values version,
                                 attachments :=
                                   (case ver_attachments version of Some a \<Rightarrow> a | None \<Rightarrow> Map.empty),
                                 lastModified := now\<rparr>)
                   (reportData st),
              showHistory := False\<rparr>)"

text \<open>Saving one version per pair of clock readings, and the versions this creates, oldest first.\<close>

fun save_versions :: "(nat \<times> nat) list \<Rightarrow> app_state \<Rightarrow> app_state" where
  "save_versions [] st = st"
| "save_versions ((t1, t2) # ts) st = save_versions ts (handleSaveVersion t1 t2 st)"

fun created_versions :: "(nat \<times> nat) list \<Rightarrow> ReportData \<Rightarrow> ReportVersion list" where
  "created_versions [] rd = []"
| "created_versions ((t1, t2) # ts) rd =
     newVersion t1 t2 rd
     # created_versions ts (rd\<lparr>history := take 30 (newVersion t1 t2 rd # history rd)\<rparr>)"

section \<open>The document export\<close>

text \<open>
  \<^verbatim>\<open>exportToDocx\<close> builds \<^verbatim>\<open>docxContent\<close> and hands it to the browser as a download;
  the function below is the text it builds. It reads the template and the values only.
\<close>

definition cleanContent :: "string \<Rightarrow> string" where
  \<open>cleanContent content =
     replace_all ''"'' ''&quot;''
       (replace_all [CHR 0x27] ''&apos;''
         (replace_all ''>'' ''&gt;''
           (replace_all ''<'' ''&lt;''
             (replace_all ''&'' ''&amp;'' content))))\<close>

definition formattedContent :: "string \<Rightarrow> string" where
  "formattedContent content =
     replace_all ''\<newline>'' ''</w:t></w:r><w:r><w:br/></w:r><w:r><w:t>'' (cleanContent content)"

definition docx_header :: "ReportTemplate \<Rightarrow> string" where
  \<open>docx_header template =
     ''<?xml version="1.0" encoding="UTF-8" standalone="yes"?>\<newline>''
     @ ''<w:document xmlns:w="http://schemas.openxmlformats.org/wordprocessingml/2006/main">\<newline>''
     @ ''  <w:body>\<newline>''
     @ ''    <w:p>\<newline>''
     @ ''      <w:pPr><w:pStyle w:val="Heading1"/><w:jc w:val="center"/></w:pPr>\<newline>''
     @ ''      <w:r><w:t>'' @ title template @ ''</w:t></w:r>\<newline>''
     @ ''    </w:p>\<newline>''
     @ ''    <w:p/>\<newline>''
     @ ''    <w:p/>''\<close>

definition docx_section :: "(string \<rightharpoonup> string) \<Rightarrow> SectionDefinition \<Rightarrow> string" where
  \<open>docx_section vals sec =
     (let content = (case vals (sec_id sec) of Some v \<Rightarrow> v | None \<Rightarrow> [])
      in ''\<newline>''
         @ ''      <w:p>\<newline>''
         @ ''        <w:pPr><w:pStyle w:val="Heading2"/></w:pPr>\<newline>''
         @ ''        <w:r><w:t>'' @ label sec @ ''</w:t></w:r>\<newline>''
         @ ''      </w:p>\<newline>''
         @ ''      <w:p>\<newline>''
         @ ''        <w:r><w:t>'' @ formattedContent content @ ''</w:t></w:r>\<newline>''
         @ ''      </w:p>\<newline>''
         @ ''      <w:p/>'')\<close>

definition exportToDocx :: "ReportTemplate \<Rightarrow> ReportData \<Rightarrow> string" where
  \<open>exportToDocx template data =
     (let vals = values_of data;
          docxContent = docx_header template;
          docxContent = foldl (\<lambda>acc sec. acc @ docx_section vals sec) docxContent (sections template)
      in docxContent
         @ ''<w:sectPr><w:pgSz w:w="11906" w:h="16838"/></w:sectPr></w:body></w:document>'')\<close>

section \<open>Example data\<close>

text \<open>A small document with one saved version, used to instantiate the theorems below.\<close>

definition ex_version :: ReportVersion where
  "ex_version = \<lparr>ver_id = ''7'', timestamp = 7, name = Some ''Version 1'',
     ver_values = [''title'' \<mapsto> ''Old''], ver_attachments = None\<rparr>"

definition ex_data :: ReportData where
  "ex_data = \<lparr>templateId = ''pfe'', lastModified = 10,
     values_of = [''title'' \<mapsto> ''New''], attachments = [''k'' \<mapsto> ''data:,x''],
     history = [ex_version]\<rparr>"

definition ex_state :: app_state where
  "ex_state = \<lparr>activeTemplate = None, reportData = Some ex_data, activeSectionId = ''title'',
     saveStatus = Saved, showHistory = True, localStorage = Missing\<rparr>"

definition ex_clock :: "(nat \<times> nat) list" where
  "ex_clock = map (\<lambda>n. (n, n + 1)) [0..<31]"

definition ex_section :: SectionDefinition where
  "ex_section = \<lparr>sec_id = ''title'', label = ''Title'', sec_type = text_field,
     required = Some True, placeholder = None, aiPrompt = None\<rparr>"

definition ex_template :: ReportTemplate where
  "ex_template = \<lparr>tmpl_id = ''pfe'', title = ''PFE'', description = ''Final year project'',
     sections = [ex_section]\<rparr>"

definition ex_partial :: PersistedRecord where
  "ex_partial = \<lparr>p_templateId = ''pfe'', p_lastModified = 3,
     p_values = [''title'' \<mapsto> ''Draft''], p_attachments = None, p_history = None\<rparr>"

text \<open>A document whose only text has characters of every kind the export treats.\<close>

definition ex_report :: ReportData where
  "ex_report = \<lparr>templateId = ''pfe'', lastModified = 10,
     values_of = [''title'' \<mapsto> ''x<y & it'' @ [CHR 0x27] @ ''s\<newline>![fig](attachment:k1) $z$''],
     attachments = Map.empty, history = []\<rparr>"

section \<open>Notions of the specification\<close>

text \<open>
  The entity of a character in the renderer and in the export: the five characters
  \<^verbatim>\<open>& < > " '\<close> have one, every other character stands for itself.
\<close>

definition html_entity :: "char \<Rightarrow> string" where
  \<open>html_entity c =
     (if c = CHR ''&'' then ''&amp;''
      else if c = CHR ''<'' then ''&lt;''
      else if c = CHR ''>'' then ''&gt;''
      else if c = CHR ''"'' then ''&quot;''
      else if c = CHR 0x27 then ''&#039;''
      else [c])\<close>

definition xml_entity :: "char \<Rightarrow> string" where
  \<open>xml_entity c = (if c = CHR 0x27 then ''&apos;'' else html_entity c)\<close>

text \<open>The characters that occur in the entities of the renderer.\<close>

definition entity_alphabet :: "char set" where
  "entity_alphabet = set ''&amp;lt;gt;quot;#039;''"

text \<open>
  A text contains an image-reference tag when some part of it has the form
  \<^verbatim>\<open>![alt](attachment:id)\<close>, for any alt text and id.
\<close>

definition contains_image_ref :: "string \<Rightarrow> bool" where
  "contains_image_ref text =
     (\<exists>pre alt ident post. text = pre @ ''!['' @ alt @ ''](attachment:'' @ ident @ '')'' @ post)"

text \<open>
  Two properties of a string used for the output of the math pass: it has no two dollar
  signs in a row, and it does not end in a dollar sign.
\<close>

fun no_double_dollar :: "string \<Rightarrow> bool" where
  "no_double_dollar [] = True"
| "no_double_dollar [c] = True"
| "no_double_dollar (c # d # cs) = (\<not> (c = CHR ''$'' \<and> d = CHR ''$'') \<and> no_double_dollar (d # cs))"

definition no_final_dollar :: "string \<Rightarrow> bool" where
  "no_final_dollar s = (s = [] \<or> last s \<noteq> CHR ''$'')"

section \<open>The escape pass\<close>

text \<open>
  Replacing one character everywhere maps every character on its own, so the five
  replacements of the renderer, and those of the export, amount to one entity per character.
\<close>

lemma replace_all_char:
  "replace_all [c] r s = concat (map (\<lambda>x. if x = c then r else [x]) s)"
  by (induction s) (simp_all add: startsWith_def)

lemma escapeHtml_append: "escapeHtml (xs @ ys) = escapeHtml xs @ escapeHtml ys"
  by (simp add: escapeHtml_def replace_all_char)

lemma escapeHtml_char: "escapeHtml [c] = html_entity c"
  by (simp add: escapeHtml_def replace_all_char html_entity_def del: replace_all.simps)

lemma escapeHtml_Nil: "escapeHtml [] = []"
  by (simp add: escapeHtml_def)

lemma escapeHtml_Cons: "escapeHtml (c # cs) = html_entity c @ escapeHtml cs"
  using escapeHtml_append[of "[c]" cs] by (simp add: escapeHtml_char)

lemma escapeHtml_map: "escapeHtml s = concat (map html_entity s)"
  by (induction s) (simp_all add: escapeHtml_Nil escapeHtml_Cons)

lemma cleanContent_append: "cleanContent (xs @ ys) = cleanContent xs @ cleanContent ys"
  by (simp add: cleanContent_def replace_all_char)

lemma cleanContent_char: "cleanContent [c] = xml_entity c"
  by (simp add: cleanContent_def replace_all_char html_entity_def xml_entity_def
        del: replace_all.simps)

lemma cleanContent_map: "cleanContent s = concat (map xml_entity s)"
proof (induction s)
  case Nil
  then show ?case by (simp add: cleanContent_def)
next
  case (Cons c cs)
  from cleanContent_append[of "[c]" cs] Cons show ?case by (simp add: cleanContent_char)
qed

lemma formattedContent_map:
  "formattedContent s =
     concat (map (\<lambda>c. if c = CHR ''\<newline>'' then ''</w:t></w:r><w:r><w:br/></w:r><w:r><w:t>''
                       else xml_entity c) s)"
proof -
  have "replace_all ''\<newline>'' r (xml_entity c) = (if c = CHR ''\<newline>'' then r else xml_entity c)"
    for r c
    by (simp add: replace_all_char xml_entity_def html_entity_def del: replace_all.simps)
  then show ?thesis
    by (induction s)
       (simp_all add: formattedContent_def cleanContent_map replace_all_char
          del: replace_all.simps)
qed

lemma escapeHtml_no_markup:
  \<open>set (escapeHtml s) \<inter> {CHR ''<'', CHR ''>'', CHR ''"'', CHR 0x27} = {}\<close>
  by (induction s) (auto simp: escapeHtml_Nil escapeHtml_Cons html_entity_def)

section \<open>Escaping in the export\<close>

text \<open>
  C9, as stated, fails: the export writes the apostrophe as \<^verbatim>\<open>&apos;\<close>, the renderer
  as \<^verbatim>\<open>&#039;\<close>, so the two escaped outputs differ on a text with an apostrophe.
\<close>

theorem export_escape_counterexample:
  "cleanContent [CHR 0x27] \<noteq> escapeHtml [CHR 0x27]"
  by (simp add: cleanContent_char escapeHtml_char xml_entity_def html_entity_def)

text \<open>
  C9, amended. The export is a function of the template and the values alone: the exported
  document is the header with the title, then for every section of the template its label
  and its text, then the closing part. In the text of a section exactly the five characters
  that the renderer escapes are written as entities, the same ones as in the renderer but
  for the apostrophe (so the two outputs agree on every text without an apostrophe);
  every newline is written as the line-break markup; every other character, so all image
  and math syntax, is copied as it is.
\<close>

theorem export_escaping:
  \<open>exportToDocx template data =
     ''<?xml version="1.0" encoding="UTF-8" standalone="yes"?>\<newline>''
     @ ''<w:document xmlns:w="http://schemas.openxmlformats.org/wordprocessingml/2006/main">\<newline>''
     @ ''  <w:body>\<newline>''
     @ ''    <w:p>\<newline>''
     @ ''      <w:pPr><w:pStyle w:val="Heading1"/><w:jc w:val="center"/></w:pPr>\<newline>''
     @ ''      <w:r><w:t>''
     @ title template
     @ ''</w:t></w:r>\<newline>''
     @ ''    </w:p>\<newline>''
     @ ''    <w:p/>\<newline>''
     @ ''    <w:p/>''
     @ concat (map (\<lambda>sec.
              ''\<newline>''
              @ ''      <w:p>\<newline>''
              @ ''        <w:pPr><w:pStyle w:val="Heading2"/></w:pPr>\<newline>''
              @ ''        <w:r><w:t>''
              @ label sec
              @ ''</w:t></w:r>\<newline>''
              @ ''      </w:p>\<newline>''
              @ ''      <w:p>\<newline>''
              @ ''        <w:r><w:t>''
              @ concat (map (\<lambda>c. if c = CHR ''\<newline>'' then ''</w:t></w:r><w:r><w:br/></w:r><w:r><w:t>''
                             else xml_entity c)
                        (case values_of data (sec_id sec) of Some v \<Rightarrow> v | None \<Rightarrow> []))
              @ ''</w:t></w:r>\<newline>''
              @ ''      </w:p>\<newline>''
              @ ''      <w:p/>'')
          (sections template))
     @ ''<w:sectPr><w:pgSz w:w="11906" w:h="16838"/></w:sectPr></w:body></w:document>''
   \<and> xml_entity c = (if c = CHR 0x27 then ''&apos;'' else escapeHtml [c])
   \<and> (xml_entity c \<noteq> [c]) = (c \<in> {CHR ''&'', CHR ''<'', CHR ''>'', CHR ''"'', CHR 0x27})
   \<and> (escapeHtml [c] \<noteq> [c]) = (c \<in> {CHR ''&'', CHR ''<'', CHR ''>'', CHR ''"'', CHR 0x27})
   \<and> cleanContent content = concat (map xml_entity content)
   \<and> escapeHtml content = concat (map html_entity content)
   \<and> (CHR 0x27 \<notin> set content \<longrightarrow> cleanContent content = escapeHtml content)
   \<and> formattedContent content =
         concat (map (\<lambda>c. if c = CHR ''\<newline>'' then ''</w:t></w:r><w:r><w:br/></w:r><w:r><w:t>''
                           else xml_entity c) content)
   \<and> (set content \<inter> {CHR ''&'', CHR ''<'', CHR ''>'', CHR ''"'', CHR 0x27, CHR ''\<newline>''} = {}
        \<longrightarrow> formattedContent content = content)
   \<and> (values_of data = values_of d' \<longrightarrow> exportToDocx template data = exportToDocx template d')\<close>
proof -
  have fold: "foldl (\<lambda>acc sec. acc @ f sec) h xs = h @ concat (map f xs)"
    for f :: "SectionDefinition \<Rightarrow> string" and h xs
    by (induction xs arbitrary: h) simp_all
  have doc: \<open>exportToDocx template data =
     ''<?xml version="1.0" encoding="UTF-8" standalone="yes"?>\<newline>''
     @ ''<w:document xmlns:w="http://schemas.openxmlformats.org/wordprocessingml/2006/main">\<newline>''
     @ ''  <w:body>\<newline>''
     @ ''    <w:p>\<newline>''
     @ ''      <w:pPr><w:pStyle w:val="Heading1"/><w:jc w:val="center"/></w:pPr>\<newline>''
     @ ''      <w:r><w:t>''
     @ title template
     @ ''</w:t></w:r>\<newline>''
     @ ''    </w:p>\<newline>''
     @ ''    <w:p/>\<newline>''
     @ ''    <w:p/>''
     @ concat (map (\<lambda>sec.
              ''\<newline>''
              @ ''      <w:p>\<newline>''
              @ ''        <w:pPr><w:pStyle w:val="Heading2"/></w:pPr>\<newline>''
              @ ''        <w:r><w:t>''
              @ label sec
              @ ''</w:t></w:r>\<newline>''
              @ ''      </w:p>\<newline>''
              @ ''      <w:p>\<newline>''
              @ ''        <w:r><w:t>''
              @ concat (map (\<lambda>c. if c = CHR ''\<newline>'' then ''</w:t></w:r><w:r><w:br/></w:r><w:r><w:t>''
                             else xml_entity c)
                        (case values_of data (sec_id sec) of Some v \<Rightarrow> v | None \<Rightarrow> []))
              @ ''</w:t></w:r>\<newline>''
              @ ''      </w:p>\<newline>''
              @ ''      <w:p/>'')
          (sections template))
     @ ''<w:sectPr><w:pgSz w:w="11906" w:h="16838"/></w:sectPr></w:body></w:document>''\<close>
    by (simp add: exportToDocx_def docx_header_def docx_section_def formattedContent_map fold
          Let_def del: replace_all.simps)
  have same: "CHR 0x27 \<notin> set content \<Longrightarrow> cleanContent content = escapeHtml content"
    unfolding cleanContent_map escapeHtml_map
    by (rule arg_cong[where f = concat], rule map_cong) (auto simp: xml_entity_def)
  have verbatim:
    \<open>set s \<inter> {CHR ''&'', CHR ''<'', CHR ''>'', CHR ''"'', CHR 0x27, CHR ''\<newline>''} = {}
       \<Longrightarrow> formattedContent s = s\<close> for s
    unfolding formattedContent_map
    by (induction s) (auto simp: xml_entity_def html_entity_def)
  have pure: "values_of data = values_of d' \<Longrightarrow> exportToDocx template data = exportToDocx template d'"
    by (simp add: exportToDocx_def)
  have rest: \<open>xml_entity c = (if c = CHR 0x27 then ''&apos;'' else escapeHtml [c])
   \<and> (xml_entity c \<noteq> [c]) = (c \<in> {CHR ''&'', CHR ''<'', CHR ''>'', CHR ''"'', CHR 0x27})
   \<and> (escapeHtml [c] \<noteq> [c]) = (c \<in> {CHR ''&'', CHR ''<'', CHR ''>'', CHR ''"'', CHR 0x27})
   \<and> cleanContent content = concat (map xml_entity content)
   \<and> escapeHtml content = concat (map html_entity content)
   \<and> (CHR 0x27 \<notin> set content \<longrightarrow> cleanContent content = escapeHtml content)
   \<and> formattedContent content =
         concat (map (\<lambda>c. if c = CHR ''\<newline>'' then ''</w:t></w:r><w:r><w:br/></w:r><w:r><w:t>''
                           else xml_entity c) content)
   \<and> (set content \<inter> {CHR ''&'', CHR ''<'', CHR ''>'', CHR ''"'', CHR 0x27, CHR ''\<newline>''} = {}
        \<longrightarrow> formattedContent content = content)
   \<and> (values_of data = values_of d' \<longrightarrow> exportToDocx template data = exportToDocx template d')\<close>
    using same verbatim[of content] pure
    by (simp add: cleanContent_map escapeHtml_map escapeHtml_char formattedContent_map
          xml_entity_def html_entity_def)
  from doc rest show ?thesis by (rule conjI)
qed

theorem export_escaping_witness:
  \<open>exportToDocx ex_template ex_report =
       ''<?xml version="1.0" encoding="UTF-8" standalone="yes"?>\<newline>''
       @ ''<w:document xmlns:w="http://schemas.openxmlformats.org/wordprocessingml/2006/main">\<newline>''
       @ ''  <w:body>\<newline>''
       @ ''    <w:p>\<newline>''
       @ ''      <w:pPr><w:pStyle w:val="Heading1"/><w:jc w:val="center"/></w:pPr>\<newline>''
       @ ''      <w:r><w:t>PFE</w:t></w:r>\<newline>''
       @ ''    </w:p>\<newline>''
       @ ''    <w:p/>\<newline>''
       @ ''    <w:p/>\<newline>''
       @ ''      <w:p>\<newline>''
       @ ''        <w:pPr><w:pStyle w:val="Heading2"/></w:pPr>\<newline>''
       @ ''        <w:r><w:t>Title</w:t></w:r>\<newline>''
       @ ''      </w:p>\<newline>''
       @ ''      <w:p>\<newline>''
       @ ''        <w:r><w:t>x&lt;y &amp; it&apos;s</w:t></w:r><w:r><w:br/></w:r><w:r><w:t>![fig](attachment:k1) $z$</w:t></w:r>\<newline>''
       @ ''      </w:p>\<newline>''
       @ ''      <w:p/><w:sectPr><w:pgSz w:w="11906" w:h="16838"/></w:sectPr></w:body></w:document>''
   \<and> CHR 0x27 \<notin> set ''a<b & c''
   \<and> cleanContent ''a<b & c'' = escapeHtml ''a<b & c''
   \<and> set ''![fig](attachment:k1) and $x^2$''
        \<inter> {CHR ''&'', CHR ''<'', CHR ''>'', CHR ''"'', CHR 0x27, CHR ''\<newline>''} = {}
   \<and> formattedContent ''![fig](attachment:k1) and $x^2$'' = ''![fig](attachment:k1) and $x^2$''
   \<and> values_of ex_report = values_of (ex_report\<lparr>attachments := [''k1'' \<mapsto> ''data:,x'']\<rparr>)
   \<and> exportToDocx ex_template ex_report
       = exportToDocx ex_template (ex_report\<lparr>attachments := [''k1'' \<mapsto> ''data:,x'']\<rparr>)\<close>
proof -
  note e1 = export_escaping[of ex_template ex_report "CHR ''a''" "''a<b & c''"
      "ex_report\<lparr>attachments := [''k1'' \<mapsto> ''data:,x'']\<rparr>"]
  note e2 = export_escaping[of ex_template ex_report "CHR ''a''" "''![fig](attachment:k1) and $x^2$''"
      "ex_report\<lparr>attachments := [''k1'' \<mapsto> ''data:,x'']\<rparr>"]
  have h1: "CHR 0x27 \<notin> set ''a<b & c''" by simp
  have h2: \<open>set ''![fig](attachment:k1) and $x^2$''
        \<inter> {CHR ''&'', CHR ''<'', CHR ''>'', CHR ''"'', CHR 0x27, CHR ''\<newline>''} = {}\<close>
    by simp
  have h3: "values_of ex_report = values_of (ex_report\<lparr>attachments := [''k1'' \<mapsto> ''data:,x'']\<rparr>)"
    by simp
  have d: \<open>exportToDocx ex_template ex_report =
       ''<?xml version="1.0" encoding="UTF-8" standalone="yes"?>\<newline>''
       @ ''<w:document xmlns:w="http://schemas.openxmlformats.org/wordprocessingml/2006/main">\<newline>''
       @ ''  <w:body>\<newline>''
       @ ''    <w:p>\<newline>''
       @ ''      <w:pPr><w:pStyle w:val="Heading1"/><w:jc w:val="center"/></w:pPr>\<newline>''
       @ ''      <w:r><w:t>PFE</w:t></w:r>\<newline>''
       @ ''    </w:p>\<newline>''
       @ ''    <w:p/>\<newline>''
       @ ''    <w:p/>\<newline>''
       @ ''      <w:p>\<newline>''
       @ ''        <w:pPr><w:pStyle w:val="Heading2"/></w:pPr>\<newline>''
       @ ''        <w:r><w:t>Title</w:t></w:r>\<newline>''
       @ ''      </w:p>\<newline>''
       @ ''      <w:p>\<newline>''
       @ ''        <w:r><w:t>x&lt;y &amp; it&apos;s</w:t></w:r><w:r><w:br/></w:r><w:r><w:t>![fig](attachment:k1) $z$</w:t></w:r>\<newline>''
       @ ''      </w:p>\<newline>''
       @ ''      <w:p/><w:sectPr><w:pgSz w:w="11906" w:h="16838"/></w:sectPr></w:body></w:document>''\<close>
    using e1[THEN conjunct1]
    by (simp add: ex_template_def ex_section_def ex_report_def xml_entity_def html_entity_def)
  note r = e1[THEN conjunct2, THEN conjunct2, THEN conjunct2, THEN conjunct2, THEN conjunct2]
  note r2 = e2[THEN conjunct2, THEN conjunct2, THEN conjunct2, THEN conjunct2, THEN conjunct2]
  note a = mp[OF r[THEN conjunct2, THEN conjunct1] h1]
  note b = mp[OF r2[THEN conjunct2, THEN conjunct2, THEN conjunct2, THEN conjunct1] h2]
  note c = mp[OF r2[THEN conjunct2, THEN conjunct2, THEN conjunct2, THEN conjunct2] h3]
  show ?thesis
    by (intro conjI d h1 h2 h3 a b c)
qed

section \<open>Rendering plain text\<close>

text \<open>What a successful match of the image pattern has consumed.\<close>

lemma lit_sound:
  assumes "lit p k s = Some r"
  shows "\<exists>t. s = p @ t \<and> k t = Some r"
proof -
  from assms have "take (length p) s = p" and "k (drop (length p) s) = Some r"
    by (auto simp: lit_def startsWith_def split: if_splits)
  then show ?thesis by (metis append_take_drop_id)
qed

lemma lazy_star_sound:
  "lazy_star ok k s = Some (m, r) \<Longrightarrow> \<exists>t. s = m @ t \<and> k t = Some r"
proof (induction s arbitrary: m)
  case Nil
  then show ?case by auto
next
  case (Cons c cs)
  show ?case
  proof (cases "k (c # cs)")
    case (Some x)
    with Cons.prems show ?thesis by auto
  next
    case None
    with Cons.prems obtain m' where m: "m = c # m'" and "lazy_star ok k cs = Some (m', r)"
      by (auto split: if_splits)
    from Cons.IH[OF this(2)] m show ?thesis by auto
  qed
qed

lemma image_ref_match_sound:
  assumes "image_ref_match s = Some (alt, ident, rest)"
  shows "s = ''!['' @ alt @ ''](attachment:'' @ ident @ '')'' @ rest"
proof -
  from lit_sound[OF assms[unfolded image_ref_match_def]] obtain t1 where
    s: "s = ''!['' @ t1"
    and 1: "lazy_star dot (lit ''](attachment:'' (lazy_star dot (lit '')'' Some))) t1
              = Some (alt, ident, rest)"
    by blast
  from lazy_star_sound[OF 1] obtain t2 where
    t1: "t1 = alt @ t2"
    and 2: "lit ''](attachment:'' (lazy_star dot (lit '')'' Some)) t2 = Some (ident, rest)"
    by blast
  from lit_sound[OF 2] obtain t3 where
    t2: "t2 = ''](attachment:'' @ t3" and 3: "lazy_star dot (lit '')'' Some) t3 = Some (ident, rest)"
    by blast
  from lazy_star_sound[OF 3] obtain t4 where
    t3: "t3 = ident @ t4" and 4: "lit '')'' Some t4 = Some rest"
    by blast
  from lit_sound[OF 4] have "t4 = '')'' @ rest" by auto
  with s t1 t2 t3 show ?thesis by simp
qed

lemma replace_image_refs_none:
  "(\<And>pre t. s = pre @ t \<Longrightarrow> image_ref_match t = None) \<Longrightarrow> replace_image_refs proto atts s = s"
proof (induction s)
  case Nil
  then show ?case by simp
next
  case (Cons c cs)
  from Cons.prems[of "[]" "c # cs"] have "image_ref_match (c # cs) = None" by simp
  moreover have "replace_image_refs proto atts cs = cs"
  proof (rule Cons.IH)
    fix pre t assume "cs = pre @ t"
    then have "c # cs = (c # pre) @ t" by simp
    then show "image_ref_match t = None" by (rule Cons.prems)
  qed
  ultimately show ?case by simp
qed

text \<open>
  An occurrence in the escaped text of a character outside the entities, or of a literal
  without an ampersand, comes from the same occurrence in the raw text.
\<close>

lemma html_entity_cases:
  "html_entity x = [x] \<or> (set (html_entity x) \<subseteq> entity_alphabet \<and> hd (html_entity x) = CHR ''&'')"
  by (simp add: html_entity_def entity_alphabet_def)

lemma html_entity_not_Nil: "html_entity x \<noteq> []"
  by (simp add: html_entity_def)

lemma escapeHtml_split_at:
  assumes "c \<notin> entity_alphabet"
  shows "escapeHtml t = a @ c # b
         \<Longrightarrow> \<exists>a' b'. t = a' @ c # b' \<and> a = escapeHtml a' \<and> b = escapeHtml b'"
proof (induction t arbitrary: a)
  case Nil
  then show ?case by (simp add: escapeHtml_Nil)
next
  case (Cons x xs)
  from Cons.prems have eq: "html_entity x @ escapeHtml xs = a @ c # b"
    by (simp add: escapeHtml_Cons)
  have rec: "\<exists>a' b'. x # xs = a' @ c # b' \<and> html_entity x @ us = escapeHtml a' \<and> b = escapeHtml b'"
    if "escapeHtml xs = us @ c # b" for us
  proof -
    from Cons.IH[OF that] obtain a' b' where
      "xs = a' @ c # b'" "us = escapeHtml a'" "b = escapeHtml b'" by blast
    then have "x # xs = (x # a') @ c # b' \<and> html_entity x @ us = escapeHtml (x # a')
               \<and> b = escapeHtml b'"
      by (simp add: escapeHtml_Cons)
    then show ?thesis by blast
  qed
  from eq obtain us where
    "(html_entity x = a @ us \<and> us @ escapeHtml xs = c # b)
     \<or> (html_entity x @ us = a \<and> escapeHtml xs = us @ c # b)"
    unfolding append_eq_append_conv2 by blast
  then show ?case
  proof
    assume 2: "html_entity x @ us = a \<and> escapeHtml xs = us @ c # b"
    with rec[of us] show ?thesis by auto
  next
    assume 1: "html_entity x = a @ us \<and> us @ escapeHtml xs = c # b"
    show ?thesis
    proof (cases us)
      case Nil
      with 1 rec[of "[]"] show ?thesis by auto
    next
      case (Cons u us')
      with 1 have u: "u = c" and h: "html_entity x = a @ c # us'" and b: "us' @ escapeHtml xs = b"
        by auto
      from h have "c \<in> set (html_entity x)" by simp
      with assms html_entity_cases[of x] have "html_entity x = [x]" by auto
      with h have "a = []" "x = c" "us' = []"
        by (auto simp: Cons_eq_append_conv)
      with b have "x # xs = [] @ c # xs \<and> a = escapeHtml [] \<and> b = escapeHtml xs"
        by (simp add: escapeHtml_Nil)
      then show ?thesis by blast
    qed
  qed
qed

lemma escapeHtml_prefix:
  "CHR ''&'' \<notin> set p \<Longrightarrow> escapeHtml t = p @ b \<Longrightarrow> \<exists>b'. t = p @ b' \<and> b = escapeHtml b'"
proof (induction p arbitrary: t)
  case Nil
  then show ?case by simp
next
  case (Cons c p)
  from Cons.prems obtain x xs where t: "t = x # xs"
    by (cases t) (auto simp: escapeHtml_Nil)
  with Cons.prems have eq: "html_entity x @ escapeHtml xs = c # p @ b"
    by (simp add: escapeHtml_Cons)
  with html_entity_not_Nil[of x] have "hd (html_entity x) = c"
    by (cases "html_entity x") auto
  with Cons.prems(1) html_entity_cases[of x] have "html_entity x = [x]" by auto
  with eq have "x = c" and "escapeHtml xs = p @ b" by auto
  from Cons.IH[OF _ this(2)] Cons.prems(1) obtain b' where "xs = p @ b'" "b = escapeHtml b'"
    by auto
  with t \<open>x = c\<close> show ?case by auto
qed

lemma escapeHtml_image_ref:
  assumes "escapeHtml text = pre @ ''!['' @ alt @ ''](attachment:'' @ ident @ '')'' @ post"
  shows "contains_image_ref text"
proof -
  from assms have "escapeHtml text = pre @ CHR ''!'' # (''['' @ alt @ ''](attachment:'' @ ident @ '')'' @ post)"
    by simp
  from escapeHtml_split_at[OF _ this] obtain pre' b1 where
    1: "text = pre' @ CHR ''!'' # b1"
    and e1: "escapeHtml b1 = ''['' @ (alt @ ''](attachment:'' @ ident @ '')'' @ post)"
    by (auto simp: entity_alphabet_def)
  from escapeHtml_prefix[OF _ e1] obtain b2 where
    2: "b1 = ''['' @ b2" and e2: "escapeHtml b2 = alt @ CHR '']'' # (''(attachment:'' @ ident @ '')'' @ post)"
    by auto
  from escapeHtml_split_at[OF _ e2] obtain alt' b3 where
    3: "b2 = alt' @ CHR '']'' # b3"
    and e3: "escapeHtml b3 = ''(attachment:'' @ (ident @ '')'' @ post)"
    by (auto simp: entity_alphabet_def)
  from escapeHtml_prefix[OF _ e3] obtain b4 where
    4: "b3 = ''(attachment:'' @ b4" and e4: "escapeHtml b4 = ident @ CHR '')'' # post"
    by auto
  from escapeHtml_split_at[OF _ e4] obtain ident' post' where
    5: "b4 = ident' @ CHR '')'' # post'"
    by (auto simp: entity_alphabet_def)
  from 1 2 3 4 5 have "text = pre' @ ''!['' @ alt' @ ''](attachment:'' @ ident' @ '')'' @ post'"
    by simp
  then show ?thesis unfolding contains_image_ref_def by blast
qed

text \<open>Without a dollar sign the math pass and the image pass find nothing.\<close>

lemma escapeHtml_no_dollar: "CHR ''$'' \<notin> set text \<Longrightarrow> CHR ''$'' \<notin> set (escapeHtml text)"
  by (induction "text") (auto simp: escapeHtml_Nil escapeHtml_Cons html_entity_def)

lemma math_match_no_dollar: "CHR ''$'' \<noteq> c \<Longrightarrow> math_match (c # cs) = None"
  by (auto simp: math_match_def lit_def startsWith_def)

lemma split_scan_no_dollar: "CHR ''$'' \<notin> set s \<Longrightarrow> split_scan acc s = [acc @ s]"
  by (induction s arbitrary: acc) (simp_all add: math_match_no_dollar)

lemma render_part_no_dollar:
  "CHR ''$'' \<notin> set part \<Longrightarrow> render_part katex part = replace_all ''\<newline>'' ''<br/>'' part"
  by (cases part) (auto simp: render_part_def startsWith_def)

lemma placeholder_match_no_dollar: "CHR ''$'' \<noteq> c \<Longrightarrow> placeholder_match (c # cs) = None"
  by (auto simp: placeholder_match_def lit_def startsWith_def)

lemma replace_placeholders_no_dollar: "CHR ''$'' \<notin> set s \<Longrightarrow> replace_placeholders s = s"
  by (induction s) (simp_all add: placeholder_match_no_dollar)

lemma br_no_dollar:
  "CHR ''$'' \<notin> set s \<Longrightarrow> CHR ''$'' \<notin> set (replace_all ''\<newline>'' ''<br/>'' s)"
  by (simp add: replace_all_char del: replace_all.simps)

text \<open>
  C6. A text without a dollar sign and without an image-reference tag renders, for every
  attachment store and math capability, as its escaped text with every newline replaced by
  \<^verbatim>\<open><br/>\<close>: each of the five characters becomes its entity, a newline becomes the
  line break, and every other character is kept.
\<close>

theorem render_plain_text:
  assumes "CHR ''$'' \<notin> set text" and "\<not> contains_image_ref text"
  shows "ContentRenderer katex proto text store = replace_all ''\<newline>'' ''<br/>'' (escapeHtml text)
         \<and> ContentRenderer katex proto text Map.empty
             = concat (map (\<lambda>c. if c = CHR ''\<newline>'' then ''<br/>'' else html_entity c) text)"
proof -
  have d: "CHR ''$'' \<notin> set (escapeHtml text)"
    by (rule escapeHtml_no_dollar[OF assms(1)])
  have "image_ref_match t = None" if "escapeHtml text = pre @ t" for pre t
  proof (cases "image_ref_match t")
    case None
    then show ?thesis .
  next
    case (Some r)
    obtain alt ident rest where "r = (alt, ident, rest)" by (cases r)
    with Some image_ref_match_sound have "t = ''!['' @ alt @ ''](attachment:'' @ ident @ '')'' @ rest"
      by blast
    with that escapeHtml_image_ref[of "text" pre alt ident rest] assms(2) show ?thesis by simp
  qed
  then have i: "replace_image_refs q a (escapeHtml text) = escapeHtml text" for q a
    by (rule replace_image_refs_none)
  have r: "ContentRenderer k q text a = replace_all ''\<newline>'' ''<br/>'' (escapeHtml text)" for k q a
    using d
    by (simp add: ContentRenderer_def i split_math_def split_scan_no_dollar render_part_no_dollar
          replace_placeholders_no_dollar br_no_dollar del: replace_all.simps)
  have "replace_all ''\<newline>'' ''<br/>'' (html_entity c)
          = (if c = CHR ''\<newline>'' then ''<br/>'' else html_entity c)" for c
    by (simp add: replace_all_char html_entity_def del: replace_all.simps)
  then have "replace_all ''\<newline>'' ''<br/>'' (escapeHtml s)
          = concat (map (\<lambda>c. if c = CHR ''\<newline>'' then ''<br/>'' else html_entity c) s)" for s
    by (induction s) (simp_all add: escapeHtml_map replace_all_char del: replace_all.simps)
  with r show ?thesis by simp
qed

theorem render_plain_text_witness:
  \<open>CHR ''$'' \<notin> set ''Wow! a<b & "c"\<newline>d''
   \<and> \<not> contains_image_ref ''Wow! a<b & "c"\<newline>d''
   \<and> ContentRenderer None Map.empty ''Wow! a<b & "c"\<newline>d'' Map.empty = ''Wow! a&lt;b &amp; &quot;c&quot;<br/>d''\<close>
proof -
  have h1: \<open>CHR ''$'' \<notin> set ''Wow! a<b & "c"\<newline>d''\<close> by simp
  have h2: \<open>\<not> contains_image_ref ''Wow! a<b & "c"\<newline>d''\<close>
    by (auto simp: contains_image_ref_def Cons_eq_append_conv)
  have e: \<open>replace_all ''\<newline>'' ''<br/>'' (escapeHtml ''Wow! a<b & "c"\<newline>d'')
           = ''Wow! a&lt;b &amp; &quot;c&quot;<br/>d''\<close>
    by code_simp
  from render_plain_text[OF h1 h2, of None Map.empty Map.empty] e h1 h2 show ?thesis by simp
qed

section \<open>Dollar signs after the math pass\<close>

text \<open>
  Without the math capability, the output of the math pass never has two dollar signs in
  a row: a math segment loses its delimiters, its body has no closing delimiter inside and
  does not end in a dollar sign, and text between segments has no dollar sign, but for
  one in the text after the last segment.
\<close>

lemma ndd_Cons: "no_double_dollar (c # cs) \<Longrightarrow> no_double_dollar cs"
  by (cases cs) auto

lemma ndd_no_dollar: "CHR ''$'' \<notin> set s \<Longrightarrow> no_double_dollar s"
  by (induction s rule: no_double_dollar.induct) auto

lemma ndd_append:
  "no_double_dollar x \<Longrightarrow> no_final_dollar x \<Longrightarrow> no_double_dollar y \<Longrightarrow> no_double_dollar (x @ y)"
proof (induction x rule: no_double_dollar.induct)
  case 1
  then show ?case by simp
next
  case (2 c)
  then show ?case by (cases y) (auto simp: no_final_dollar_def)
next
  case (3 c d cs)
  then show ?case by (auto simp: no_final_dollar_def)
qed

lemma ndd_append_plain:
  "CHR ''$'' \<notin> set x \<Longrightarrow> no_double_dollar y \<Longrightarrow> no_double_dollar (x @ y)"
proof (induction x)
  case Nil
  then show ?case by simp
next
  case (Cons c x)
  then show ?case by (cases "x @ y") auto
qed

lemma replace_placeholders_ndd: "no_double_dollar s \<Longrightarrow> replace_placeholders s = s"
proof (induction s)
  case Nil
  then show ?case by simp
next
  case (Cons c cs)
  have "placeholder_match (c # cs) = None"
  proof (cases cs)
    case Nil
    then show ?thesis by (simp add: placeholder_match_def lit_def startsWith_def)
  next
    case (Cons d ds)
    with Cons.prems show ?thesis
      by (auto simp: placeholder_match_def lit_def startsWith_def)
  qed
  with Cons.IH ndd_Cons[OF Cons.prems] show ?case by simp
qed

lemma lazy_block_body:
  "lazy_star any_char (lit ''$$'' Some) s = Some (body, rest)
   \<Longrightarrow> no_double_dollar body \<and> no_final_dollar body"
proof (induction s arbitrary: body)
  case Nil
  then show ?case by (auto simp: no_final_dollar_def)
next
  case (Cons c cs)
  show ?case
  proof (cases "lit ''$$'' Some (c # cs)")
    case (Some r)
    with Cons.prems show ?thesis by (simp add: no_final_dollar_def)
  next
    case None
    with Cons.prems obtain b where b: "body = c # b"
      and r: "lazy_star any_char (lit ''$$'' Some) cs = Some (b, rest)"
      by (auto split: if_splits)
    from Cons.IH[OF r] have ih: "no_double_dollar b" "no_final_dollar b" by auto
    from lazy_star_sound[OF r] obtain t where t: "cs = b @ t" "lit ''$$'' Some t = Some rest"
      by blast
    from lit_sound[OF t(2)] have t': "t = ''$$'' @ rest" by auto
    from None have n: "\<not> startsWith (c # cs) ''$$''"
      by (auto simp: lit_def split: if_splits)
    show ?thesis
    proof (cases b)
      case Nil
      with n t t' have "c \<noteq> CHR ''$''" by (auto simp: startsWith_def)
      with Nil b show ?thesis by (simp add: no_final_dollar_def)
    next
      case (Cons d ds)
      with n t have "\<not> (c = CHR ''$'' \<and> d = CHR ''$'')" by (auto simp: startsWith_def)
      with Cons b ih show ?thesis by (auto simp: no_final_dollar_def)
    qed
  qed
qed

lemma lazy_inline_body:
  "lazy_star any_char (lit ''$'' Some) s = Some (body, rest) \<Longrightarrow> CHR ''$'' \<notin> set body"
proof (induction s arbitrary: body)
  case Nil
  then show ?case by auto
next
  case (Cons c cs)
  show ?case
  proof (cases "lit ''$'' Some (c # cs)")
    case (Some r)
    with Cons.prems show ?thesis by simp
  next
    case None
    with Cons.prems obtain b where b: "body = c # b"
      and r: "lazy_star any_char (lit ''$'' Some) cs = Some (b, rest)"
      by (auto split: if_splits)
    from None have "c \<noteq> CHR ''$''" by (auto simp: lit_def startsWith_def split: if_splits)
    with Cons.IH[OF r] b show ?thesis by auto
  qed
qed

lemma lazy_inline_finds:
  "CHR ''$'' \<in> set s \<Longrightarrow> lazy_star any_char (lit ''$'' Some) s \<noteq> None"
  by (induction s) (auto simp: lit_def startsWith_def any_char_def split: option.splits)

lemma math_match_None_dollar:
  assumes "math_match (CHR ''$'' # cs) = None"
  shows "CHR ''$'' \<notin> set cs"
proof
  assume "CHR ''$'' \<in> set cs"
  from lazy_inline_finds[OF this] have "lit ''$'' (lazy_star any_char (lit ''$'' Some)) (CHR ''$'' # cs) \<noteq> None"
    by (simp add: lit_def startsWith_def)
  with assms show False by (auto simp: math_match_def split: option.splits)
qed

lemma replace_all_Nil_iff: "rep \<noteq> [] \<Longrightarrow> (replace_all pat rep s = []) = (s = [])"
  by (cases s) auto

lemma replace_all_hd:
  "CHR ''$'' \<notin> set rep \<Longrightarrow> rep \<noteq> [] \<Longrightarrow> c \<noteq> CHR ''$''
   \<Longrightarrow> hd (replace_all pat rep (c # cs)) \<noteq> CHR ''$''"
  by (cases rep) auto

lemma nfd_Cons: "no_final_dollar (c # cs) \<Longrightarrow> cs \<noteq> [] \<Longrightarrow> no_final_dollar cs"
  by (simp add: no_final_dollar_def)

lemma ndd_drop: "no_double_dollar s \<Longrightarrow> no_double_dollar (drop n s)"
proof (induction n arbitrary: s)
  case 0
  then show ?case by simp
next
  case (Suc n)
  then show ?case by (cases s) (auto dest: ndd_Cons)
qed

lemma nfd_drop: "no_final_dollar s \<Longrightarrow> no_final_dollar (drop n s)"
  by (auto simp: no_final_dollar_def)

lemma replace_all_dollars:
  assumes "CHR ''$'' \<notin> set rep" and "rep \<noteq> []"
  shows "no_double_dollar s \<Longrightarrow> no_final_dollar s
         \<Longrightarrow> no_double_dollar (replace_all pat rep s) \<and> no_final_dollar (replace_all pat rep s)"
proof (induction s rule: length_induct)
  case (1 s)
  show ?case
  proof (cases s)
    case Nil
    then show ?thesis by (simp add: no_final_dollar_def)
  next
    case (Cons c cs)
    show ?thesis
    proof (cases "pat \<noteq> [] \<and> startsWith (c # cs) pat")
      case True
      let ?r = "replace_all pat rep (drop (length pat - 1) cs)"
      have "length (drop (length pat - 1) cs) < length s" using Cons by simp
      moreover have "no_double_dollar (drop (length pat - 1) cs)"
        using "1.prems"(1) Cons by (auto intro: ndd_drop dest: ndd_Cons)
      moreover have "no_final_dollar (drop (length pat - 1) cs)"
        using "1.prems"(2) Cons by (cases "cs = []") (auto intro: nfd_drop dest: nfd_Cons simp: no_final_dollar_def)
      ultimately have ih: "no_double_dollar ?r" "no_final_dollar ?r"
        using "1.IH" by auto
      from True Cons have eq: "replace_all pat rep s = rep @ ?r" by simp
      from ih assms have "no_double_dollar (rep @ ?r)" by (auto intro: ndd_append_plain)
      moreover have "no_final_dollar (rep @ ?r)"
      proof (cases "?r = []")
        case True
        have "last rep \<noteq> CHR ''$''" using assms by (metis last_in_set)
        with True show ?thesis by (simp add: no_final_dollar_def)
      next
        case False
        with ih(2) show ?thesis by (simp add: no_final_dollar_def)
      qed
      ultimately show ?thesis using eq by simp
    next
      case False
      let ?r = "replace_all pat rep cs"
      from False Cons have eq: "replace_all pat rep s = c # ?r" by auto
      show ?thesis
      proof (cases cs)
        case Nil
        with eq Cons "1.prems" show ?thesis by (simp add: no_final_dollar_def)
      next
        case (Cons d ds)
        have "length cs < length s" using \<open>s = c # cs\<close> by simp
        moreover have "no_double_dollar cs" using "1.prems"(1) \<open>s = c # cs\<close> by (auto dest: ndd_Cons)
        moreover have "no_final_dollar cs" using "1.prems"(2) \<open>s = c # cs\<close> Cons
          by (auto dest: nfd_Cons)
        ultimately have ih: "no_double_dollar ?r" "no_final_dollar ?r"
          using "1.IH" by auto
        from assms(2) Cons have ne: "?r \<noteq> []" by (simp add: replace_all_Nil_iff)
        have "\<not> (c = CHR ''$'' \<and> hd ?r = CHR ''$'')"
        proof
          assume a: "c = CHR ''$'' \<and> hd ?r = CHR ''$''"
          with "1.prems"(1) \<open>s = c # cs\<close> Cons have "d \<noteq> CHR ''$''" by auto
          from replace_all_hd[OF assms this, of pat ds] a Cons show False by simp
        qed
        with ih ne have "no_double_dollar (c # ?r)" by (cases ?r) auto
        moreover from ih ne have "no_final_dollar (c # ?r)" by (simp add: no_final_dollar_def)
        ultimately show ?thesis using eq by simp
      qed
    qed
  qed
qed

lemma unescape_dollars:
  assumes "no_double_dollar x" and "no_final_dollar x"
  shows "no_double_dollar (replace_all ''&gt;'' ''>'' (replace_all ''&lt;'' ''<'' x))"
    and "no_final_dollar (replace_all ''&gt;'' ''>'' (replace_all ''&lt;'' ''<'' x))"
proof -
  have "no_double_dollar (replace_all ''&lt;'' ''<'' x) \<and> no_final_dollar (replace_all ''&lt;'' ''<'' x)"
    using assms by (intro replace_all_dollars) auto
  then have "no_double_dollar (replace_all ''&gt;'' ''>'' (replace_all ''&lt;'' ''<'' x))
     \<and> no_final_dollar (replace_all ''&gt;'' ''>'' (replace_all ''&lt;'' ''<'' x))"
    by (intro replace_all_dollars) auto
  then show "no_double_dollar (replace_all ''&gt;'' ''>'' (replace_all ''&lt;'' ''<'' x))"
    and "no_final_dollar (replace_all ''&gt;'' ''>'' (replace_all ''&lt;'' ''<'' x))"
    by auto
qed

lemma slice_block: "slice (''$$'' @ x @ ''$$'') 2 (- 2) = x"
  by (simp add: slice_def Let_def)

lemma slice_inline: "slice (''$'' @ x @ ''$'') 1 (- 1) = x"
  by (simp add: slice_def Let_def)

lemma render_block_match:
  "render_part None (''$$'' @ x @ ''$$'') = replace_all ''&gt;'' ''>'' (replace_all ''&lt;'' ''<'' x)"
proof -
  have "startsWith (''$$'' @ x @ ''$$'') ''$$''" by (simp add: startsWith_def)
  moreover have "endsWith (''$$'' @ x @ ''$$'') ''$$''" by (simp add: endsWith_def)
  ultimately show ?thesis
    unfolding render_part_def by (simp only: slice_block renderMath_def if_True option.case simp_thms)
qed

lemma render_inline_match:
  assumes "CHR ''$'' \<notin> set x"
  shows "render_part None (''$'' @ x @ ''$'') = replace_all ''&gt;'' ''>'' (replace_all ''&lt;'' ''<'' x)"
proof (cases x)
  case Nil
  have "render_part None ''$$'' = []" by code_simp
  with Nil show ?thesis by simp
next
  case (Cons c cs)
  with assms have "\<not> startsWith (''$'' @ x @ ''$'') ''$$''" by (auto simp: startsWith_def)
  moreover have "startsWith (''$'' @ x @ ''$'') ''$''" by (simp add: startsWith_def)
  moreover have "endsWith (''$'' @ x @ ''$'') ''$''" by (simp add: endsWith_def)
  ultimately show ?thesis
    unfolding render_part_def by (simp only: slice_inline renderMath_def if_True if_False option.case simp_thms)
qed

lemma br_map:
  "replace_all ''\<newline>'' ''<br/>'' s
     = concat (map (\<lambda>x. if x = CHR ''\<newline>'' then ''<br/>'' else [x]) s)"
  by (induction s) (simp_all add: startsWith_def)

lemma endsWith_single: "s \<noteq> [] \<Longrightarrow> endsWith s [c] = (last s = c)"
proof -
  assume "s \<noteq> []"
  then obtain xs x where "s = xs @ [x]" by (metis append_butlast_last_id)
  then show ?thesis by (simp add: endsWith_def)
qed

lemma render_single_dollar:
  assumes "CHR ''$'' \<notin> set a" and "CHR ''$'' \<notin> set b"
  shows "no_double_dollar (render_part None (a @ CHR ''$'' # b))"
proof (cases "a = [] \<and> b = []")
  case True
  have "render_part None ''$'' = []" by code_simp
  with True show ?thesis by simp
next
  case False
  let ?p = "a @ CHR ''$'' # b"
  have 1: "\<not> startsWith ?p ''$$''"
    using assms by (cases a; cases b) (auto simp: startsWith_def)
  have 2: "\<not> (startsWith ?p ''$'' \<and> endsWith ?p ''$'')"
  proof (cases a)
    case Nil
    with False have "b \<noteq> []" by simp
    with assms(2) have "last b \<noteq> CHR ''$''" by (metis last_in_set)
    with Nil \<open>b \<noteq> []\<close> show ?thesis by (simp add: endsWith_single)
  next
    case (Cons x xs)
    with assms(1) show ?thesis by (auto simp: startsWith_def)
  qed
  from 1 2 have "render_part None ?p = replace_all ''\<newline>'' ''<br/>'' ?p"
    by (auto simp: render_part_def)
  also have "\<dots> = replace_all ''\<newline>'' ''<br/>'' a @ CHR ''$'' # replace_all ''\<newline>'' ''<br/>'' b"
    unfolding br_map by simp
  finally have eq: "render_part None ?p
      = replace_all ''\<newline>'' ''<br/>'' a @ CHR ''$'' # replace_all ''\<newline>'' ''<br/>'' b" .
  have "no_double_dollar (CHR ''$'' # replace_all ''\<newline>'' ''<br/>'' b)"
    using br_no_dollar[OF assms(2)] ndd_no_dollar[OF br_no_dollar[OF assms(2)]]
    by (cases "replace_all ''\<newline>'' ''<br/>'' b") auto
  with br_no_dollar[OF assms(1)] show ?thesis unfolding eq by (rule ndd_append_plain)
qed

lemma nfd_no_dollar: "CHR ''$'' \<notin> set s \<Longrightarrow> no_final_dollar s"
  by (metis no_final_dollar_def last_in_set)

lemma render_match_dollars:
  assumes "math_match s = Some (m, rest)"
  shows "no_double_dollar (render_part None m) \<and> no_final_dollar (render_part None m)"
proof (cases "lit ''$$'' (lazy_star any_char (lit ''$$'' Some)) s")
  case (Some r)
  obtain body r' where r: "r = (body, r')" by (cases r)
  with Some assms have m: "m = ''$$'' @ body @ ''$$''" by (simp add: math_match_def)
  from lit_sound[OF Some[unfolded r]] obtain t where
    "lazy_star any_char (lit ''$$'' Some) t = Some (body, r')" by blast
  from lazy_block_body[OF this] show ?thesis
    unfolding m render_block_match by (simp add: unescape_dollars)
next
  case None
  with assms obtain body where b: "lit ''$'' (lazy_star any_char (lit ''$'' Some)) s = Some (body, rest)"
    and m: "m = ''$'' @ body @ ''$''"
    by (auto simp: math_match_def split: option.splits)
  from lit_sound[OF b] obtain t where
    "lazy_star any_char (lit ''$'' Some) t = Some (body, rest)" by blast
  from lazy_inline_body[OF this] have d: "CHR ''$'' \<notin> set body" .
  then have "no_double_dollar body" "no_final_dollar body"
    by (simp_all add: ndd_no_dollar nfd_no_dollar)
  then show ?thesis
    unfolding m render_inline_match[OF d] by (simp add: unescape_dollars)
qed

lemma math_pass_dollars:
  "CHR ''$'' \<notin> set acc
   \<Longrightarrow> no_double_dollar (concat (map (render_part None) (split_scan acc s)))"
proof (induction acc s rule: split_scan.induct)
  case (1 acc)
  then show ?case by (simp add: render_part_no_dollar ndd_no_dollar br_no_dollar)
next
  case (2 acc c cs)
  show ?case
  proof (cases "math_match (c # cs)")
    case None
    show ?thesis
    proof (cases "c = CHR ''$''")
      case True
      with None have "CHR ''$'' \<notin> set cs" by (auto dest: math_match_None_dollar)
      then have "split_scan (acc @ [c]) cs = [acc @ c # cs]"
        by (simp add: split_scan_no_dollar)
      with None True render_single_dollar[OF "2.prems" \<open>CHR ''$'' \<notin> set cs\<close>]
      show ?thesis by simp
    next
      case False
      with "2.prems" have "CHR ''$'' \<notin> set (acc @ [c])" by auto
      from "2.IH"(1)[OF None this] None show ?thesis by simp
    qed
  next
    case (Some r)
    obtain m rest where r: "r = (m, rest)" by (cases r)
    from "2.IH"(2)[OF Some r[symmetric]] have ih:
      "no_double_dollar (concat (map (render_part None) (split_scan [] rest)))" by simp
    from render_match_dollars[OF Some[unfolded r]] have rm:
      "no_double_dollar (render_part None m)" "no_final_dollar (render_part None m)" by auto
    from rm ih have tl: "no_double_dollar
        (render_part None m @ concat (map (render_part None) (split_scan [] rest)))"
      by (rule ndd_append)
    from br_no_dollar[OF "2.prems"] tl have "no_double_dollar
        (replace_all ''\<newline>'' ''<br/>'' acc
         @ render_part None m @ concat (map (render_part None) (split_scan [] rest)))"
      by (rule ndd_append_plain)
    with Some r "2.prems" show ?thesis by (simp add: render_part_no_dollar)
  qed
qed

text \<open>
  Without the math capability the last pass never finds a placeholder, whatever the text
  and the store: the result of the renderer is the result of its math pass.
\<close>

lemma last_pass_finds_nothing:
  "ContentRenderer None proto text store
     = concat (map (render_part None) (split_math (replace_image_refs proto store (escapeHtml text))))"
  by (simp add: ContentRenderer_def split_math_def math_pass_dollars replace_placeholders_ndd)

section \<open>Math segments and image placeholders\<close>

text \<open>
  The parts of \<^verbatim>\<open>$$a$$ and $b$\<close>: a block segment and an inline segment, each handed
  to the math capability on its own; and \<^verbatim>\<open>$c\<close>, which stays as it is.
\<close>

lemma two_math_segments:
  "ContentRenderer katex proto ''$$a$$ and $b$'' store
   = replace_placeholders (renderMath katex ''a'' True @ '' and '' @ renderMath katex ''b'' False)"
proof -
  have s: "split_math (replace_image_refs proto store (escapeHtml ''$$a$$ and $b$''))
             = [[], ''$$a$$'', '' and '', ''$b$'', []]" by code_simp
  have p: "render_part katex [] = []" "render_part katex ''$$a$$'' = renderMath katex ''a'' True"
    "render_part katex '' and '' = '' and ''" "render_part katex ''$b$'' = renderMath katex ''b'' False"
    by code_simp+
  show ?thesis by (simp add: ContentRenderer_def s p)
qed

lemma unterminated_dollar_c: "ContentRenderer katex proto ''$c'' store = ''$c''"
  by code_simp

lemma lone_dollar_is_math:
  "ContentRenderer katex proto ''$'' store = replace_placeholders (renderMath katex [] False)"
proof -
  have s: "split_math (replace_image_refs proto store (escapeHtml ''$'')) = [''$'']" by code_simp
  have p: "render_part katex ''$'' = renderMath katex [] False" by code_simp
  show ?thesis by (simp add: ContentRenderer_def s p)
qed

lemma unterminated_block_opener:
  "ContentRenderer katex proto ''$$c'' store = replace_placeholders (renderMath katex [] True @ ''c'')"
proof -
  have s: "split_math (replace_image_refs proto store (escapeHtml ''$$c'')) = [[], ''$$'', ''c'']"
    by code_simp
  have p: "render_part katex [] = []" "render_part katex ''$$'' = renderMath katex [] True"
    "render_part katex ''c'' = ''c''"
    by code_simp+
  show ?thesis by (simp add: ContentRenderer_def s p)
qed

text \<open>
  An opening dollar sign that is never closed and is followed by at least one character
  stays in the output, with the text after it escaped and its newlines as line breaks.
\<close>

lemma lazy_inline_none:
  "CHR ''$'' \<notin> set s \<Longrightarrow> lazy_star any_char (lit ''$'' Some) s = None"
  by (induction s) (auto simp: lit_def startsWith_def)

lemma math_match_unterminated:
  assumes "CHR ''$'' \<notin> set s"
  shows "math_match (CHR ''$'' # s) = None"
proof -
  have "lit ''$$'' (lazy_star any_char (lit ''$$'' Some)) (CHR ''$'' # s) = None"
    using assms by (cases s) (auto simp: lit_def startsWith_def)
  moreover have "lit ''$'' (lazy_star any_char (lit ''$'' Some)) (CHR ''$'' # s) = None"
    using lazy_inline_none[OF assms] by (simp add: lit_def startsWith_def)
  ultimately show ?thesis by (simp add: math_match_def)
qed

lemma contains_image_ref_Cons:
  assumes "contains_image_ref (CHR ''$'' # c)"
  shows "contains_image_ref c"
proof -
  from assms obtain pre alt ident post where
    e: "CHR ''$'' # c = pre @ ''!['' @ alt @ ''](attachment:'' @ ident @ '')'' @ post"
    unfolding contains_image_ref_def by blast
  then obtain pre' where "pre = CHR ''$'' # pre'" by (cases pre) auto
  with e have "c = pre' @ ''!['' @ alt @ ''](attachment:'' @ ident @ '')'' @ post" by simp
  then show ?thesis unfolding contains_image_ref_def by blast
qed

lemma unterminated_dollar_kept:
  assumes "CHR ''$'' \<notin> set c" and "c \<noteq> []" and "\<not> contains_image_ref c"
  shows "ContentRenderer katex proto (CHR ''$'' # c) store
           = CHR ''$'' # replace_all ''\<newline>'' ''<br/>'' (escapeHtml c)"
proof -
  let ?e = "escapeHtml c"
  have d: "CHR ''$'' \<notin> set ?e" by (rule escapeHtml_no_dollar[OF assms(1)])
  have ne: "?e \<noteq> []" using assms(2) by (cases c) (auto simp: escapeHtml_Cons html_entity_not_Nil)
  have esc: "escapeHtml (CHR ''$'' # c) = CHR ''$'' # ?e"
    by (simp add: escapeHtml_Cons html_entity_def)
  have "image_ref_match t = None" if "escapeHtml (CHR ''$'' # c) = pre @ t" for pre t
  proof (cases "image_ref_match t")
    case None
    then show ?thesis .
  next
    case (Some r)
    obtain alt ident rest where "r = (alt, ident, rest)" by (cases r)
    with Some image_ref_match_sound have "t = ''!['' @ alt @ ''](attachment:'' @ ident @ '')'' @ rest"
      by blast
    with that escapeHtml_image_ref[of "CHR ''$'' # c" pre alt ident rest] assms(3)
      contains_image_ref_Cons[of c]
    show ?thesis by auto
  qed
  then have i: "replace_image_refs proto store (escapeHtml (CHR ''$'' # c)) = CHR ''$'' # ?e"
    using replace_image_refs_none[of "escapeHtml (CHR ''$'' # c)" proto store] esc by simp
  have s: "split_math (CHR ''$'' # ?e) = [CHR ''$'' # ?e]"
    using math_match_unterminated[OF d] split_scan_no_dollar[OF d, of "''$''"]
    by (simp add: split_math_def)
  have 1: "\<not> startsWith (CHR ''$'' # ?e) ''$$''"
    using d ne by (cases ?e) (auto simp: startsWith_def)
  have "last ?e \<noteq> CHR ''$''" using d ne by (metis last_in_set)
  then have 2: "\<not> endsWith (CHR ''$'' # ?e) ''$''"
    using ne by (simp add: endsWith_single)
  from 1 2 have p: "render_part katex (CHR ''$'' # ?e)
      = CHR ''$'' # replace_all ''\<newline>'' ''<br/>'' ?e"
    by (simp add: render_part_def startsWith_def)
  have "no_double_dollar (CHR ''$'' # replace_all ''\<newline>'' ''<br/>'' ?e)"
    using br_no_dollar[OF d] ndd_no_dollar[OF br_no_dollar[OF d]]
    by (cases "replace_all ''\<newline>'' ''<br/>'' ?e") auto
  then have r: "replace_placeholders (CHR ''$'' # replace_all ''\<newline>'' ''<br/>'' ?e)
      = CHR ''$'' # replace_all ''\<newline>'' ''<br/>'' ?e"
    by (rule replace_placeholders_ndd)
  show ?thesis
    by (simp add: ContentRenderer_def i s p r del: replace_all.simps replace_placeholders.simps)
qed

text \<open>
  C3 at the text \<^verbatim>\<open>$\<close>, an opening delimiter that is never closed: the split leaves
  it as the only part, the part starts and ends with a dollar sign, so it is sliced to the
  empty string and rendered as inline math. Without the math capability nothing of it is
  left in the output; the same happens to the last dollar sign of \<^verbatim>\<open>$a$$\<close>.
\<close>

theorem lone_dollar_dropped:
  "ContentRenderer None proto ''$'' Map.empty = [] \<and> ContentRenderer None proto ''$a$$'' Map.empty = ''a''"
  by code_simp

text \<open>
  The placeholder of a resolved image starts with two dollar signs, so the math pass cuts
  it into block segments before the last pass can look for it.
\<close>

lemma placeholder_parts:
  "split_math (replace_image_refs proto [''k1'' \<mapsto> ''data:image/png;base64,AAAA'']
                 (escapeHtml ''![fig](attachment:k1)''))
   = [[], ''$$IMG_START$$'', ''data:image/png;base64,AAAA'', ''$$IMG_SEP$$'', ''fig'',
      ''$$IMG_END$$'', []]"
  by code_simp

lemma placeholder_rendered_as_math:
  "concat (map (render_part katex)
     (split_math (replace_image_refs proto [''k1'' \<mapsto> ''data:image/png;base64,AAAA'']
                    (escapeHtml ''![fig](attachment:k1)''))))
   = renderMath katex ''IMG_START'' True @ ''data:image/png;base64,AAAA''
     @ renderMath katex ''IMG_SEP'' True @ ''fig'' @ renderMath katex ''IMG_END'' True"
proof -
  have p: "render_part katex [] = []"
    "render_part katex ''$$IMG_START$$'' = renderMath katex ''IMG_START'' True"
    "render_part katex ''data:image/png;base64,AAAA'' = ''data:image/png;base64,AAAA''"
    "render_part katex ''$$IMG_SEP$$'' = renderMath katex ''IMG_SEP'' True"
    "render_part katex ''fig'' = ''fig''"
    "render_part katex ''$$IMG_END$$'' = renderMath katex ''IMG_END'' True"
    by code_simp+
  show ?thesis by (simp add: placeholder_parts p)
qed

lemma broken_reference_marker:
  "ContentRenderer katex Map.empty ''![fig](attachment:k2)''
     [''k1'' \<mapsto> ''data:image/png;base64,AAAA'']
   = ''[Broken Image: fig]''"
  by code_simp

text \<open>
  An id that the store does not hold but inherits is resolved like a stored one: with the
  constructor that a plain object inherits, the reference gets a placeholder, not the
  broken-image marker.
\<close>

lemma inherited_id_resolved:
  "replace_image_refs [''constructor'' \<mapsto> (True, ''function Object() { [native code] }'')]
     Map.empty ''![fig](attachment:constructor)''
   = ''$$IMG_START$$function Object() { [native code] }$$IMG_SEP$$fig$$IMG_END$$''"
  by code_simp

text \<open>
  C2 at a reference to a stored attachment: the output is the three placeholder words
  around the payload and the alt text, as plain text, and no image element.
\<close>

theorem stored_image_not_materialized:
  "ContentRenderer None proto ''![fig](attachment:k1)'' [''k1'' \<mapsto> ''data:image/png;base64,AAAA'']
   = ''IMG_STARTdata:image/png;base64,AAAAIMG_SEPfigIMG_END''"
  by code_simp

lemma renderMath_fallback:
  "renderMath None math displayMode = math
   \<and> renderMath (Some (\<lambda>m d. None)) math displayMode = math"
  by (simp add: renderMath_def)

text \<open>
  C1 at a math segment that holds markup: the escape pass runs first, the segment gets its
  \<^verbatim>\<open><\<close> and \<^verbatim>\<open>>\<close> back for the math capability, and without the capability the
  restored source is the output, so the script element reaches the markup unescaped.
\<close>

theorem math_segment_markup_unescaped:
  "ContentRenderer None proto ''$<script>alert(1)</script>$'' Map.empty = ''<script>alert(1)</script>''"
  by code_simp

section \<open>Restoring a version\<close>

text \<open>
  C5. For every document and every version of its history, a confirmed restore puts the
  version's values and attachments in place of the current ones and sets last-modified
  to the clock reading; the version list (and so the version's own snapshot in it) and the
  template identifier stay as they were. A declined restore returns the state it was given.
\<close>

theorem restore_replaces_snapshot:
  assumes "reportData st = Some rd" and "version \<in> set (history rd)"
  shows "reportData (handleRestoreVersion True now version st)
           = Some (rd\<lparr>values_of := ver_values version,
                      attachments :=
                        (case ver_attachments version of Some a \<Rightarrow> a | None \<Rightarrow> Map.empty),
                      lastModified := now\<rparr>)
         \<and> history (the (reportData (handleRestoreVersion True now version st))) = history rd
         \<and> templateId (the (reportData (handleRestoreVersion True now version st))) = templateId rd
         \<and> version \<in> set (history (the (reportData (handleRestoreVersion True now version st))))
         \<and> handleRestoreVersion False now version st = st"
  using assms by (simp add: handleRestoreVersion_def)

theorem restore_replaces_snapshot_witness:
  "reportData ex_state = Some ex_data \<and> ex_version \<in> set (history ex_data)
   \<and> values_of (the (reportData (handleRestoreVersion True 20 ex_version ex_state)))
       = [''title'' \<mapsto> ''Old'']
   \<and> attachments (the (reportData (handleRestoreVersion True 20 ex_version ex_state))) = Map.empty
   \<and> lastModified (the (reportData (handleRestoreVersion True 20 ex_version ex_state))) = 20
   \<and> history (the (reportData (handleRestoreVersion True 20 ex_version ex_state))) = [ex_version]
   \<and> handleRestoreVersion False 20 ex_version ex_state = ex_state"
proof -
  have h1: "reportData ex_state = Some ex_data" by (simp add: ex_state_def)
  have h2: "ex_version \<in> set (history ex_data)" by (simp add: ex_data_def)
  from restore_replaces_snapshot[OF h1 h2, of 20] h1 h2 show ?thesis
    by (simp add: ex_data_def ex_version_def)
qed

text \<open>
  C10. A version stored without an attachments field restores to the empty attachment
  store: the store of the document is a map with no key, not an absent value.
\<close>

theorem restore_without_attachments:
  assumes "reportData st = Some rd" and "ver_attachments version = None"
  shows "reportData (handleRestoreVersion True now version st)
           = Some (rd\<lparr>values_of := ver_values version, attachments := Map.empty,
                      lastModified := now\<rparr>)
         \<and> dom (attachments (the (reportData (handleRestoreVersion True now version st)))) = {}"
  using assms by (simp add: handleRestoreVersion_def)

theorem restore_without_attachments_witness:
  "reportData ex_state = Some ex_data \<and> ver_attachments ex_version = None
   \<and> attachments ex_data ''k'' = Some ''data:,x''
   \<and> attachments (the (reportData (handleRestoreVersion True 20 ex_version ex_state))) = Map.empty"
proof -
  have h1: "reportData ex_state = Some ex_data" by (simp add: ex_state_def)
  have h2: "ver_attachments ex_version = None" by (simp add: ex_version_def)
  from restore_without_attachments[OF h1 h2, of 20] h1 h2 show ?thesis
    by (simp add: ex_data_def)
qed

section \<open>The bounded version list\<close>

lemma take_append_take: "take n (xs @ take n ys) = take n (xs @ ys)"
  by (simp add: min_def)

lemma length_created_versions: "length (created_versions ts rd) = length ts"
  by (induction ts rd rule: created_versions.induct) simp_all

lemma save_versions_None: "reportData st = None \<Longrightarrow> save_versions ts st = st"
  by (induction ts st rule: save_versions.induct) (simp_all add: handleSaveVersion_def)

lemma save_versions_history:
  "reportData st = Some rd \<Longrightarrow>
   reportData (save_versions ts st)
     = Some (rd\<lparr>history := (if ts = [] then history rd
                              else take 30 (rev (created_versions ts rd) @ history rd))\<rparr>)"
proof (induction ts arbitrary: st rd)
  case Nil
  then show ?case by simp
next
  case (Cons t ts)
  obtain t1 t2 where t: "t = (t1, t2)" by (cases t)
  let ?rd1 = "rd\<lparr>history := take 30 (newVersion t1 t2 rd # history rd)\<rparr>"
  from Cons.prems have "reportData (handleSaveVersion t1 t2 st) = Some ?rd1"
    by (simp add: handleSaveVersion_def)
  from Cons.IH[OF this] show ?case
    using take_append_take[of 30 "rev (created_versions ts ?rd1)" "newVersion t1 t2 rd # history rd"]
    by (simp add: t)
qed

lemma save_evicts_oldest:
  assumes "reportData st = Some rd" and "length (history rd) = 30"
  shows "reportData (handleSaveVersion t1 t2 st)
           = Some (rd\<lparr>history := newVersion t1 t2 rd # butlast (history rd)\<rparr>)"
  using assms by (simp add: handleSaveVersion_def butlast_conv_take)

text \<open>
  C4. After more than thirty saves the version list has exactly thirty entries: the thirty
  versions created last, newest first. One more save puts the new version in front and
  drops the last (oldest) entry.
\<close>

theorem version_list_bounded:
  assumes "reportData st = Some rd" and "30 < length ts"
  shows "\<exists>rd'. reportData (save_versions ts st) = Some rd'
           \<and> length (history rd') = 30
           \<and> history rd' = rev (drop (length ts - 30) (created_versions ts rd))
           \<and> reportData (handleSaveVersion t1 t2 (save_versions ts st))
               = Some (rd'\<lparr>history := newVersion t1 t2 rd' # butlast (history rd')\<rparr>)"
proof -
  let ?cs = "created_versions ts rd"
  let ?rd' = "rd\<lparr>history := take 30 (rev ?cs @ history rd)\<rparr>"
  from assms(2) have "ts \<noteq> []" by auto
  with save_versions_history[OF assms(1), of ts]
  have r: "reportData (save_versions ts st) = Some ?rd'" by simp
  have len: "length ?cs = length ts" by (rule length_created_versions)
  with assms(2) have h: "history ?rd' = rev (drop (length ts - 30) ?cs)"
    by (simp add: take_rev)
  from len assms(2) have l: "length (history ?rd') = 30" by simp
  from r h l save_evicts_oldest[OF r l] show ?thesis by blast
qed

theorem version_list_bounded_witness:
  "reportData ex_state = Some ex_data \<and> 30 < length ex_clock
   \<and> length (history (the (reportData (save_versions ex_clock ex_state)))) = 30
   \<and> history (the (reportData (save_versions ex_clock ex_state)))
       = rev (drop 1 (created_versions ex_clock ex_data))"
proof -
  have h1: "reportData ex_state = Some ex_data" by (simp add: ex_state_def)
  have h2: "30 < length ex_clock" by (simp add: ex_clock_def)
  have h3: "length ex_clock - 30 = 1" by (simp add: ex_clock_def)
  from version_list_bounded[OF h1 h2, of 0 0] obtain rd' where
    "reportData (save_versions ex_clock ex_state) = Some rd'" and "length (history rd') = 30"
    and "history rd' = rev (drop (length ex_clock - 30) (created_versions ex_clock ex_data))"
    by blast
  with h1 h2 h3 show ?thesis by simp
qed

section \<open>Edits and the last-modified stamp\<close>

text \<open>
  C8, as stated, fails: an edit stores the clock reading, so an edit made at the reading
  already stored leaves last-modified equal, not strictly greater.
\<close>

theorem mutation_clock_counterexample:
  "\<not> lastModified ex_data
       < lastModified (the (reportData (handleInputChange ''title'' ''Newer'' 10 ex_state)))"
  by (simp add: handleInputChange_def ex_state_def ex_data_def)

text \<open>
  C8, amended. Setting a section value and inserting an attachment always store the clock
  reading of the edit as last-modified and keep the template identifier (an insertion with
  no active section changes nothing); last-modified is strictly greater than before
  whenever that reading is greater than the stored one.
\<close>

theorem mutation_sets_lastModified:
  assumes "reportData st = Some rd"
  shows "reportData (handleInputChange ident v now st)
           = Some (rd\<lparr>lastModified := now, values_of := (values_of rd)(ident \<mapsto> v)\<rparr>)
         \<and> lastModified (the (reportData (handleInputChange ident v now st))) = now
         \<and> templateId (the (reportData (handleInputChange ident v now st))) = templateId rd
         \<and> (activeSectionId st \<noteq> [] \<longrightarrow>
              reportData (insertAttachment aid dataUrl altText q now st)
                = Some (rd\<lparr>attachments := (attachments rd)(aid \<mapsto> dataUrl),
                           lastModified := now,
                           values_of := (values_of rd)(activeSectionId st \<mapsto>
                             (case q of
                                Some (from, to, shown) \<Rightarrow>
                                  take from shown
                                  @ ''\<newline>!['' @ altText @ ''](attachment:'' @ aid @ '')\<newline>''
                                  @ drop to shown
                              | None \<Rightarrow>
                                  (case values_of rd (activeSectionId st) of
                                     Some old \<Rightarrow> old | None \<Rightarrow> [])
                                  @ ''\<newline>!['' @ altText @ ''](attachment:'' @ aid @ '')\<newline>''))\<rparr>)
              \<and> lastModified (the (reportData (insertAttachment aid dataUrl altText q now st))) = now
              \<and> templateId (the (reportData (insertAttachment aid dataUrl altText q now st)))
                  = templateId rd)
         \<and> (activeSectionId st = [] \<longrightarrow> insertAttachment aid dataUrl altText q now st = st)
         \<and> (lastModified rd < now \<longrightarrow>
              lastModified rd < lastModified (the (reportData (handleInputChange ident v now st)))
              \<and> (activeSectionId st \<noteq> [] \<longrightarrow>
                   lastModified rd
                     < lastModified (the (reportData (insertAttachment aid dataUrl altText q now st)))))"
  using assms
  by (auto simp: handleInputChange_def insertAttachment_def Let_def split: option.splits prod.splits)

theorem mutation_sets_lastModified_witness:
  "reportData ex_state = Some ex_data \<and> activeSectionId ex_state \<noteq> [] \<and> lastModified ex_data < 11
   \<and> lastModified (the (reportData (handleInputChange ''title'' ''Newer'' 11 ex_state))) = 11
   \<and> templateId (the (reportData (handleInputChange ''title'' ''Newer'' 11 ex_state))) = ''pfe''
   \<and> lastModified ex_data
       < lastModified (the (reportData (handleInputChange ''title'' ''Newer'' 11 ex_state)))
   \<and> reportData (insertAttachment ''a1'' ''data:,y'' ''Diagram'' None 11 ex_state)
       = Some (ex_data\<lparr>attachments := (attachments ex_data)(''a1'' \<mapsto> ''data:,y''),
                 lastModified := 11,
                 values_of := (values_of ex_data)(''title'' \<mapsto>
                                 ''New\<newline>![Diagram](attachment:a1)\<newline>'')\<rparr>)
   \<and> lastModified ex_data
       < lastModified (the (reportData (insertAttachment ''a1'' ''data:,y'' ''Diagram'' None 11 ex_state)))
   \<and> lastModified (the (reportData (handleInputChange ''title'' ''Newer'' 10 ex_state))) = 10
   \<and> templateId (the (reportData (handleInputChange ''title'' ''Newer'' 10 ex_state))) = ''pfe''"
proof -
  have h1: "reportData ex_state = Some ex_data" by (simp add: ex_state_def)
  have h2: "activeSectionId ex_state \<noteq> []" by (simp add: ex_state_def)
  have h2': "activeSectionId ex_state = ''title''" by (simp add: ex_state_def)
  have h3: "lastModified ex_data < 11" by (simp add: ex_data_def)
  have h4: "templateId ex_data = ''pfe''" by (simp add: ex_data_def)
  have h5: "values_of ex_data ''title'' = Some ''New''" by (simp add: ex_data_def)
  note m = mutation_sets_lastModified[OF h1, of "''title''" "''Newer''" 11 "''a1''" "''data:,y''"
      "''Diagram''" None]
  note n = mutation_sets_lastModified[OF h1, of "''title''" "''Newer''" 10 "''a1''" "''data:,y''"
      "''Diagram''" None]
  from m n h1 h2 h2' h3 h4 h5 show ?thesis by simp
qed

section \<open>Loading a stored draft\<close>

text \<open>
  C7. A stored record without \<^verbatim>\<open>history\<close> or \<^verbatim>\<open>attachments\<close> loads: selecting its
  template gives a document with the empty list and the empty map in their place, and the
  auto-load effect fills the two fields in the same way. Selecting a template whose key is
  not the stored record's gives a document whose values, attachments and versions are all
  empty.
\<close>

theorem load_defaults_and_mismatch:
  assumes "localStorage st = Stored p" and "TEMPLATES key = Some tmpl"
    and "sections tmpl = sec # secs"
  shows "(\<exists>st'. handleTemplateSelect TEMPLATES key now st = Inr st'
           \<and> reportData st' =
               Some (if p_templateId p = key
                     then \<lparr>templateId = key, lastModified = now, values_of = p_values p,
                           attachments = (case p_attachments p of Some a \<Rightarrow> a | None \<Rightarrow> Map.empty),
                           history = (case p_history p of Some h \<Rightarrow> h | None \<Rightarrow> [])\<rparr>
                     else \<lparr>templateId = key, lastModified = now, values_of = Map.empty,
                           attachments = Map.empty, history = []\<rparr>))
         \<and> autoLoad (Stored p)
           = Some (p\<lparr>p_history := Some (case p_history p of Some h \<Rightarrow> h | None \<Rightarrow> []),
                      p_attachments :=
                        Some (case p_attachments p of Some a \<Rightarrow> a | None \<Rightarrow> Map.empty)\<rparr>)"
  using assms
  by (auto simp: handleTemplateSelect_def autoLoad_def Let_def split: option.splits)

theorem load_defaults_and_mismatch_witness:
  "handleTemplateSelect [''pfe'' \<mapsto> ex_template, ''research'' \<mapsto> ex_template] ''pfe'' 50
       (ex_state\<lparr>localStorage := Stored ex_partial\<rparr>)
     = Inr (ex_state\<lparr>localStorage := Stored ex_partial,
              reportData := Some \<lparr>templateId = ''pfe'', lastModified = 50,
                                   values_of = [''title'' \<mapsto> ''Draft''],
                                   attachments = Map.empty, history = []\<rparr>,
              activeTemplate := Some ex_template, activeSectionId := ''title''\<rparr>)
   \<and> handleTemplateSelect [''pfe'' \<mapsto> ex_template, ''research'' \<mapsto> ex_template] ''research'' 50
       (ex_state\<lparr>localStorage := Stored ex_partial\<rparr>)
     = Inr (ex_state\<lparr>localStorage := Stored ex_partial,
              reportData := Some \<lparr>templateId = ''research'', lastModified = 50,
                                   values_of = Map.empty,
                                   attachments = Map.empty, history = []\<rparr>,
              activeTemplate := Some ex_template, activeSectionId := ''title''\<rparr>)"
proof -
  let ?T = "[''pfe'' \<mapsto> ex_template, ''research'' \<mapsto> ex_template]"
  let ?st = "ex_state\<lparr>localStorage := Stored ex_partial\<rparr>"
  have h1: "localStorage ?st = Stored ex_partial" by simp
  have h2: "?T ''pfe'' = Some ex_template" by simp
  have h2': "?T ''research'' = Some ex_template" by simp
  have h3: "sections ex_template = ex_section # []" by (simp add: ex_template_def)
  from load_defaults_and_mismatch[where TEMPLATES = ?T and key = "''pfe''" and now = 50, OF h1 h2 h3]
  obtain s1 where
    a: "handleTemplateSelect ?T ''pfe'' 50 ?st = Inr s1"
    and a': "reportData s1 = Some \<lparr>templateId = ''pfe'', lastModified = 50,
               values_of = [''title'' \<mapsto> ''Draft''], attachments = Map.empty, history = []\<rparr>"
    by (auto simp: ex_partial_def)
  from load_defaults_and_mismatch[where TEMPLATES = ?T and key = "''research''" and now = 50,
      OF h1 h2' h3]
  obtain s2 where
    b: "handleTemplateSelect ?T ''research'' 50 ?st = Inr s2"
    and b': "reportData s2 = Some \<lparr>templateId = ''research'', lastModified = 50,
               values_of = Map.empty, attachments = Map.empty, history = []\<rparr>"
    by (auto simp: ex_partial_def)
  from a a' b b' show ?thesis
    by (auto simp: handleTemplateSelect_def Let_def ex_partial_def ex_template_def ex_section_def)
qed

end
